theory Spec2Isabelle
  imports Complex_Main "HOL-Library.Char_ord" "HOL-Library.List_Lexorder" "HOL-Library.Multiset"
begin

section \<open>Python objects and the built-ins used by qprompt\<close>

text \<open>
  The library is dynamically typed: a rule of \<open>vld\<close>, a default and an answer are
  arbitrary Python objects. The model covers the objects the library documents for
  them: \<open>None\<close>, integers, floats, strings, the type objects \<open>int\<close>, \<open>float\<close> and
  \<open>str\<close>, and functions. A function object is identified by its name (object identity);
  what it returns is looked up in an environment. A float is modelled by the rational
  number that its decimal notation denotes: the rounding to binary floating point, the
  overflow of large numbers, the infinities and \<open>nan\<close> are left out. The built-ins behave as in Python 3.
\<close>

datatype pytype = TInt | TStr | TFloat

datatype pyobj = PNone | PInt int | PFloat rat | PStr string | PType pytype | PFun string

datatype exn = EOFError | IndexError | ValueError | TypeError | FormatterRaised | ActionRaised

text \<open>Behaviour of the function objects: \<open>None\<close> when the call raises, otherwise the
  truth value of what it returns. The functions are assumed pure.\<close>

type_synonym penv = "string \<Rightarrow> pyobj \<Rightarrow> bool option"

text \<open>A formatter: \<open>None\<close> when it raises.\<close>

type_synonym formatter = "pyobj \<Rightarrow> pyobj option"

text \<open>The order in which \<open>list(set(xs))\<close> enumerates the distinct elements of \<open>xs\<close>.
  Python leaves it unspecified, so it is a parameter of the model.\<close>

type_synonym setorder = "pyobj list \<Rightarrow> pyobj list"

definition QSTR :: string where
  "QSTR = ''[?] ''"

definition ISTR :: string where
  "ISTR = '': ''"

subsection \<open>\<open>str\<close>, \<open>repr\<close>, \<open>int\<close>, \<open>float\<close>, truth values\<close>

function str_of_nat :: "nat \<Rightarrow> string" where
  "str_of_nat n =
     (if n < 10 then [''0123456789'' ! n]
      else str_of_nat (n div 10) @ [''0123456789'' ! (n mod 10)])"
  by pat_completeness auto
termination
  by (relation "measure (\<lambda>n. n)") auto

declare str_of_nat.simps [simp del]

definition str_of_int :: "int \<Rightarrow> string" where
  "str_of_int i = (if i < 0 then CHR ''-'' # str_of_nat (nat (- i)) else str_of_nat (nat i))"

definition type_name :: "pytype \<Rightarrow> string" where
  "type_name t = (case t of TInt \<Rightarrow> ''int'' | TStr \<Rightarrow> ''str'' | TFloat \<Rightarrow> ''float'')"

text \<open>The notation of a float, with a decimal point and at least one digit after it.
  Python switches to the notation with an exponent below \<open>1e-4\<close> and from \<open>1e16\<close> on,
  which is left out.\<close>

fun frac_digits :: "nat \<Rightarrow> rat \<Rightarrow> string" where
  "frac_digits 0 r = []"
| "frac_digits (Suc n) r =
     (if r = 0 then []
      else (let d = nat \<lfloor>r * 10\<rfloor>
            in (''0123456789'' ! d) # frac_digits n (r * 10 - of_nat d)))"

definition float_str :: "rat \<Rightarrow> string" where
  "float_str q =
     (let a = \<bar>q\<bar>;
          ip = nat \<lfloor>a\<rfloor>;
          fr = a - of_nat ip
      in (if q < 0 then ''-'' else []) @ str_of_nat ip @ ''.''
         @ (if fr = 0 then ''0'' else frac_digits 17 fr))"

text \<open>\<open>str(x)\<close>. For a function object Python prints its address too, which is left out.\<close>

definition py_str :: "pyobj \<Rightarrow> string" where
  "py_str x =
     (case x of
        PNone \<Rightarrow> ''None''
      | PInt i \<Rightarrow> str_of_int i
      | PFloat q \<Rightarrow> float_str q
      | PStr s \<Rightarrow> s
      | PType t \<Rightarrow> ''<class '' @ [CHR 0x27] @ type_name t @ [CHR 0x27] @ ''>''
      | PFun f \<Rightarrow> ''<function '' @ f @ ''>'')"

definition is_space :: "char \<Rightarrow> bool" where
  "is_space c =
     (let k = (of_char c :: nat) in (9 \<le> k \<and> k \<le> 13) \<or> (28 \<le> k \<and> k \<le> 32))"

definition is_digit :: "char \<Rightarrow> bool" where
  "is_digit c = (let k = (of_char c :: nat) in 48 \<le> k \<and> k \<le> 57)"

definition strip :: "string \<Rightarrow> string" where
  "strip s = rev (dropWhile is_space (rev (dropWhile is_space s)))"

text \<open>Decimal digits, with single underscores allowed between digits.\<close>

fun parse_digits :: "bool \<Rightarrow> nat \<Rightarrow> string \<Rightarrow> nat option" where
  "parse_digits prev acc [] = (if prev then Some acc else None)"
| "parse_digits prev acc (c # cs) =
     (if is_digit c then parse_digits True (10 * acc + (of_char c - 48)) cs
      else if c = CHR ''_'' \<and> prev then parse_digits False acc cs
      else None)"

definition int_of_str :: "string \<Rightarrow> int option" where
  "int_of_str s =
     (case strip s of
        [] \<Rightarrow> None
      | c # cs \<Rightarrow>
          if c = CHR ''-'' then map_option (\<lambda>n. - int n) (parse_digits False 0 cs)
          else if c = CHR ''+'' then map_option int (parse_digits False 0 cs)
          else map_option int (parse_digits False 0 (c # cs)))"

text \<open>\<open>float(s)\<close> for a string: an optional sign, digits with an optional decimal
  point (digits before it, after it, or both), and an optional exponent.\<close>

definition parse_mantissa :: "string \<Rightarrow> rat option" where
  "parse_mantissa m =
     (let ip = takeWhile (\<lambda>c. c \<noteq> CHR ''.'') m;
          rest = dropWhile (\<lambda>c. c \<noteq> CHR ''.'') m
      in if rest = [] then map_option of_nat (parse_digits False 0 ip)
         else
           (let fp = tl rest
            in if ip = [] \<and> fp = [] then None
               else
                 (case (if ip = [] then Some 0 else parse_digits False 0 ip,
                        if fp = [] then Some 0 else parse_digits False 0 fp) of
                    (Some i, Some f) \<Rightarrow>
                      Some (of_nat i + of_nat f / 10 ^ length (filter is_digit fp))
                  | _ \<Rightarrow> None)))"

definition parse_exponent :: "string \<Rightarrow> int option" where
  "parse_exponent e =
     (case e of
        [] \<Rightarrow> None
      | c # cs \<Rightarrow>
          if c = CHR ''-'' then map_option (\<lambda>n. - int n) (parse_digits False 0 cs)
          else if c = CHR ''+'' then map_option int (parse_digits False 0 cs)
          else map_option int (parse_digits False 0 (c # cs)))"

definition is_exp :: "char \<Rightarrow> bool" where
  "is_exp c = (c = CHR ''e'' \<or> c = CHR ''E'')"

definition parse_unsigned :: "string \<Rightarrow> rat option" where
  "parse_unsigned b =
     (let m = takeWhile (\<lambda>c. \<not> is_exp c) b;
          rest = dropWhile (\<lambda>c. \<not> is_exp c) b
      in case parse_mantissa m of
           None \<Rightarrow> None
         | Some q \<Rightarrow>
             if rest = [] then Some q
             else
               (case parse_exponent (tl rest) of
                  None \<Rightarrow> None
                | Some k \<Rightarrow> Some (if 0 \<le> k then q * 10 ^ nat k else q / 10 ^ nat (- k))))"

definition float_of_str :: "string \<Rightarrow> rat option" where
  "float_of_str s =
     (case strip s of
        [] \<Rightarrow> None
      | c # cs \<Rightarrow>
          if c = CHR ''-'' then map_option uminus (parse_unsigned cs)
          else if c = CHR ''+'' then parse_unsigned cs
          else parse_unsigned (c # cs))"

text \<open>\<open>int(x)\<close> of a float cuts off the digits after the point.\<close>

definition trunc :: "rat \<Rightarrow> int" where
  "trunc q = (if 0 \<le> q then \<lfloor>q\<rfloor> else \<lceil>q\<rceil>)"

text \<open>Calling a type object on a value: \<open>int(x)\<close>, \<open>float(x)\<close> and \<open>str(x)\<close>; \<open>None\<close>
  when the call raises.\<close>

definition call_type :: "pytype \<Rightarrow> pyobj \<Rightarrow> pyobj option" where
  "call_type t x =
     (case t of
        TStr \<Rightarrow> Some (PStr (py_str x))
      | TInt \<Rightarrow>
          (case x of
             PInt i \<Rightarrow> Some (PInt i)
           | PFloat q \<Rightarrow> Some (PInt (trunc q))
           | PStr s \<Rightarrow> map_option PInt (int_of_str s)
           | _ \<Rightarrow> None)
      | TFloat \<Rightarrow>
          (case x of
             PInt i \<Rightarrow> Some (PFloat (of_int i))
           | PFloat q \<Rightarrow> Some (PFloat q)
           | PStr s \<Rightarrow> map_option PFloat (float_of_str s)
           | _ \<Rightarrow> None))"

definition truthy :: "pyobj \<Rightarrow> bool" where
  "truthy x =
     (case x of
        PNone \<Rightarrow> False
      | PInt i \<Rightarrow> i \<noteq> 0
      | PFloat q \<Rightarrow> q \<noteq> 0
      | PStr s \<Rightarrow> s \<noteq> []
      | _ \<Rightarrow> True)"

text \<open>\<open>x == y\<close>: an integer and a float are equal when they are the same number; other
  objects are equal when they are the same. \<open>x in xs\<close> looks for an equal element.\<close>

definition py_eq :: "pyobj \<Rightarrow> pyobj \<Rightarrow> bool" where
  "py_eq x y =
     (case x of
        PInt i \<Rightarrow> (case y of PFloat q \<Rightarrow> of_int i = q | _ \<Rightarrow> x = y)
      | PFloat q \<Rightarrow> (case y of PInt i \<Rightarrow> q = of_int i | _ \<Rightarrow> x = y)
      | _ \<Rightarrow> x = y)"

definition py_in :: "pyobj \<Rightarrow> pyobj list \<Rightarrow> bool" where
  "py_in x xs = list_ex (py_eq x) xs"

definition callable :: "pyobj \<Rightarrow> bool" where
  "callable x = (case x of PType t \<Rightarrow> True | PFun f \<Rightarrow> True | _ \<Rightarrow> False)"

text \<open>Calling a rule that is callable and testing the result, as \<open>if v(ans)\<close> does.\<close>

definition call_rule :: "penv \<Rightarrow> pyobj \<Rightarrow> pyobj \<Rightarrow> bool option" where
  "call_rule pe v x =
     (case v of
        PType t \<Rightarrow> map_option truthy (call_type t x)
      | PFun f \<Rightarrow> pe f x
      | _ \<Rightarrow> None)"

text \<open>\<open>sorted(xs)\<close> in Python 3, for a list of distinct objects: numbers sort among
  themselves and strings among themselves; any other comparison raises \<open>TypeError\<close>
  (the result \<open>None\<close>). A list of at most one element needs no comparison.\<close>

definition is_int :: "pyobj \<Rightarrow> bool" where
  "is_int x = (case x of PInt i \<Rightarrow> True | _ \<Rightarrow> False)"

definition is_str :: "pyobj \<Rightarrow> bool" where
  "is_str x = (case x of PStr s \<Rightarrow> True | _ \<Rightarrow> False)"

definition is_float :: "pyobj \<Rightarrow> bool" where
  "is_float x = (case x of PFloat q \<Rightarrow> True | _ \<Rightarrow> False)"

definition py_sorted :: "pyobj list \<Rightarrow> pyobj list option" where
  "py_sorted xs =
     (if length xs \<le> 1 then Some xs
      else if list_all is_int xs
        then Some (sort_key (\<lambda>x. case x of PInt i \<Rightarrow> i | _ \<Rightarrow> 0) xs)
      else if list_all (\<lambda>x. is_int x \<or> is_float x) xs
        then Some (sort_key (\<lambda>x. case x of PInt i \<Rightarrow> of_int i | PFloat q \<Rightarrow> q | _ \<Rightarrow> 0) xs)
      else if list_all is_str xs
        then Some (sort_key (\<lambda>x. case x of PStr s \<Rightarrow> s | _ \<Rightarrow> []) xs)
      else None)"

section \<open>The prompt engine: \<open>ask\<close>\<close>

text \<open>\<open>cast(val, typ)\<close>: the converted value, or \<open>None\<close> when the conversion raises.\<close>

definition cast :: "pyobj \<Rightarrow> pytype \<Rightarrow> pyobj" where
  "cast val typ = (case call_type typ val of None \<Rightarrow> PNone | Some v \<Rightarrow> v)"

text \<open>The local variables of \<open>ask\<close> once its preamble has run.\<close>

record ask_vars =
  a_msg :: string
  a_fmt :: formatter
  a_dft :: pyobj
  a_vld :: "pyobj list"
  a_blk :: bool
  a_hlp :: string

text \<open>The \<open>for v in vld: ... else: ans = None\<close> loop; the second argument is
  what is left to iterate, the first the whole list (for \<open>ans in vld\<close>).\<close>

fun validate :: "penv \<Rightarrow> pyobj list \<Rightarrow> pyobj list \<Rightarrow> pyobj \<Rightarrow> pyobj" where
  "validate pe vld [] ans = PNone"
| "validate pe vld (v # vs) ans =
     (case v of
        PType t \<Rightarrow>
          (if cast ans t \<noteq> PNone then cast ans t
           else if call_rule pe v ans = Some True then ans
           else validate pe vld vs ans)
      | PFun f \<Rightarrow>
          (if call_rule pe v ans = Some True then ans
           else validate pe vld vs ans)
      | _ \<Rightarrow>
          (if py_in ans vld then ans
           else validate pe vld vs ans))"

text \<open>Formatting a typed line and validating it: the \<open>try: ans = fmt(ans)\<close> block
  and the validation that follows. The result \<open>PNone\<close> makes the loop ask again.\<close>

definition format_validate :: "penv \<Rightarrow> formatter \<Rightarrow> pyobj list \<Rightarrow> pyobj \<Rightarrow> pyobj" where
  "format_validate pe fmt vld x =
     (let ans = (case fmt x of None \<Rightarrow> PNone | Some r \<Rightarrow> r)
      in if vld \<noteq> [] then validate pe vld vld ans else ans)"

text \<open>\<open>print_help\<close>: the lines it echoes, or the exception of \<open>lst.remove("")\<close>.\<close>

definition hint :: "pyobj \<Rightarrow> pyobj" where
  "hint v =
     (case v of
        PType TInt \<Rightarrow> PStr ''<int>''
      | PType TFloat \<Rightarrow> PStr ''<float>''
      | PType TStr \<Rightarrow> PStr ''<str>''
      | PFun f \<Rightarrow> PStr (''('' @ f @ '')'')
      | _ \<Rightarrow> v)"

fun join :: "string \<Rightarrow> string list \<Rightarrow> string" where
  "join sep [] = []"
| "join sep [x] = x"
| "join sep (x # y # ys) = x @ sep @ join sep (y # ys)"

definition print_help :: "ask_vars \<Rightarrow> exn + string list" where
  "print_help a =
     (let lst = filter (\<lambda>v. \<not> callable v) (a_vld a)
      in if a_blk a \<and> PStr [] \<notin> set lst then Inl ValueError
         else
           (let lst1 = (if a_blk a then remove1 (PStr []) lst else lst);
                lst2 = lst1 @ map hint (filter callable (a_vld a))
            in Inr ((if lst2 \<noteq> [] then [''[HELP] Valid input: '' @ join '' | '' (map py_str lst2)] else [])
                  @ (if a_hlp a \<noteq> [] then [''[HELP] Extra notes: '' @ a_hlp a] else [])
                  @ (if a_blk a then [''[HELP] Input may be blank.''] else []))))"

text \<open>The sanitising of the rules: \<open>[fmt(v) if fmt(v) else v for v in vld]\<close>; the first
  call of the formatter that raises ends \<open>ask\<close>.\<close>

fun sanitize :: "formatter \<Rightarrow> pyobj list \<Rightarrow> exn + pyobj list" where
  "sanitize fmt [] = Inr []"
| "sanitize fmt (v # vs) =
     (case fmt v of
        None \<Rightarrow> Inl FormatterRaised
      | Some r \<Rightarrow>
          (case sanitize fmt vs of
             Inl e \<Rightarrow> Inl e
           | Inr rs \<Rightarrow> Inr ((if truthy r then r else v) # rs)))"

text \<open>The preamble of \<open>ask\<close>, up to \<open>msg += ISTR\<close>. The first component of the
  result is the caller's list object after the call: \<open>vld = vld or []\<close> keeps a
  non-empty list of the caller as the very object that \<open>vld.append(dft)\<close> then changes,
  and replaces an empty one by a fresh list. Later assignments rebind \<open>vld\<close> to new
  lists. The rule set is a list or absent; a single value, which the code wraps into a
  list, is not modelled.\<close>

definition ask_setup ::
  "setorder \<Rightarrow> string \<Rightarrow> formatter option \<Rightarrow> pyobj \<Rightarrow> pyobj list option \<Rightarrow> bool \<Rightarrow> string option
     \<Rightarrow> pyobj list option \<times> (exn + ask_vars)" where
  "ask_setup so msg fmt dft vld blk hlp =
     (let aliased = (case vld of Some l \<Rightarrow> l \<noteq> [] | None \<Rightarrow> False);
          vld0 = (case vld of Some l \<Rightarrow> l | None \<Rightarrow> []);
          hlp1 = (case hlp of Some h \<Rightarrow> h | None \<Rightarrow> []);
          fmt1 = (case fmt of Some f \<Rightarrow> f | None \<Rightarrow> Some);
          msg1 = QSTR @ msg
      in case (if dft \<noteq> PNone then fmt1 dft else Some PNone) of
           None \<Rightarrow> (vld, Inl FormatterRaised)
         | Some dft1 \<Rightarrow>
             (let msg2 = (if dft1 \<noteq> PNone then msg1 @ '' ['' @ py_str dft1 @ '']'' else msg1);
                  vld1 = (if dft1 \<noteq> PNone then vld0 @ [dft1] else vld0);
                  blk1 = (if dft1 \<noteq> PNone then False else blk);
                  caller = (if aliased then Some vld1 else vld)
              in if vld1 \<noteq> [] then
                   (case sanitize fmt1 vld1 of
                      Inl e \<Rightarrow> (caller, Inl e)
                    | Inr vs \<Rightarrow>
                        (let vld2 = so vs;
                             vld3 = (if blk1 \<and> PStr [] \<notin> set vld2 then vld2 @ [PStr []] else vld2);
                             vld4 = (case py_sorted vld3 of Some s \<Rightarrow> s | None \<Rightarrow> vld3)
                         in (caller, Inr \<lparr>a_msg = msg2 @ ISTR, a_fmt = fmt1, a_dft = dft1,
                                         a_vld = vld4, a_blk = blk1, a_hlp = hlp1\<rparr>)))
                 else (caller, Inr \<lparr>a_msg = msg2 @ ISTR, a_fmt = fmt1, a_dft = dft1,
                                   a_vld = vld1, a_blk = blk1, a_hlp = hlp1\<rparr>)))"

text \<open>The read loop. The input source is the list of lines still to be read; reading
  past the last line raises \<open>EOFError\<close>. Each read writes the prompt first. The flag
  \<open>shw\<close> only chooses between \<open>input\<close> and \<open>getpass\<close> and is left out.\<close>

fun ask_loop ::
  "penv \<Rightarrow> ask_vars \<Rightarrow> string list \<Rightarrow> string list \<Rightarrow> (exn + pyobj) \<times> string list \<times> string list" where
  "ask_loop pe a [] out = (Inl EOFError, [], out @ [a_msg a])"
| "ask_loop pe a (line # rest) out =
     (if line = ''?'' then
        (case print_help a of
           Inl e \<Rightarrow> (Inl e, rest, out @ [a_msg a])
         | Inr ls \<Rightarrow> ask_loop pe a rest (out @ [a_msg a] @ ls))
      else if line = [] \<and> a_dft a \<noteq> PNone then
        (case a_fmt a (a_dft a) of
           None \<Rightarrow> (Inl FormatterRaised, rest, out @ [a_msg a])
         | Some r \<Rightarrow> (Inr r, rest, out @ [a_msg a]))
      else if line = [] \<and> PStr [] \<notin> set (a_vld a) then ask_loop pe a rest (out @ [a_msg a])
      else
        (let ans = format_validate pe (a_fmt a) (a_vld a) (PStr line)
         in if ans = PNone then ask_loop pe a rest (out @ [a_msg a])
            else (Inr ans, rest, out @ [a_msg a])))"

section \<open>The process state\<close>

text \<open>
  \<open>sys_stdin\<close> is the stream object that \<open>sys.stdin\<close> names, \<open>streams\<close> gives for each
  stream object the lines still to be read from it, \<open>setup_stream\<close> and
  \<open>setup_original\<close> are the fields \<open>_stream\<close> and \<open>original\<close> of the module's
  \<open>stdin_setup\<close> object, \<open>argv\<close> is \<open>sys.argv[1:]\<close>, \<open>out\<close> is what has been written
  to the console, and \<open>user\<close> is the state of the calling program, on which the actions
  of menu entries work.
\<close>

record 'u world =
  sys_stdin :: nat
  streams :: "nat \<Rightarrow> string list"
  setup_stream :: nat
  setup_original :: nat
  argv :: "string list"
  out :: "string list"
  user :: 'u

text \<open>\<open>ask\<close>: the value returned or the exception raised, the caller's \<open>vld\<close> list after
  the call, and the new state.\<close>

definition ask ::
  "setorder \<Rightarrow> penv \<Rightarrow> string \<Rightarrow> formatter option \<Rightarrow> pyobj \<Rightarrow> pyobj list option \<Rightarrow> bool
     \<Rightarrow> string option \<Rightarrow> 'u world \<Rightarrow> ((exn + pyobj) \<times> pyobj list option) \<times> 'u world" where
  "ask so pe msg fmt dft vld blk hlp w =
     (case ask_setup so msg fmt dft vld blk hlp of
        (caller, Inl e) \<Rightarrow> ((Inl e, caller), w)
      | (caller, Inr a) \<Rightarrow>
          (case ask_loop pe a (streams w (sys_stdin w)) (out w) of
             (r, rest, out1) \<Rightarrow>
               ((r, caller), w\<lparr>streams := (streams w)(sys_stdin w := rest), out := out1\<rparr>)))"

text \<open>The formatters that \<open>ask_int\<close> and \<open>ask_float\<close> pass: \<open>partial(cast, typ=int)\<close>
  and \<open>partial(cast, typ=float)\<close>.\<close>

definition cast_int :: formatter where
  "cast_int x = Some (cast x TInt)"


section \<open>Menus\<close>

text \<open>\<open>MenuEntry\<close>. The action \<open>func\<close> is called with the stored arguments; it works on
  the state of the calling program and may raise.\<close>

type_synonym 'u action = "pyobj list \<Rightarrow> (string \<times> pyobj) list \<Rightarrow> 'u \<Rightarrow> exn option \<times> 'u"

record 'u entry =
  name :: string
  desc :: string
  func :: "'u action option"
  args :: "pyobj list"
  krgs :: "(string \<times> pyobj) list"

text \<open>The field that \<open>show_menu\<close> returns (\<open>returns\<close>): the name or the description.
  The other fields of an entry are not strings and are left out.\<close>

datatype retfield = RName | RDesc

text \<open>The keyword arguments of \<open>show_menu\<close> and \<open>show_limit\<close>; \<open>None\<close> is an absent key.\<close>

record kwargs =
  kw_hdr :: "string option"
  kw_note :: "string option"
  kw_msg :: "string option"
  kw_dft :: "pyobj option"
  kw_compact :: "bool option"
  kw_returns :: "retfield option"
  kw_limit :: "int option"

definition run_func :: "'u entry \<Rightarrow> 'u \<Rightarrow> exn option \<times> 'u" where
  "run_func e u =
     (case func e of
        None \<Rightarrow> (None, u)
      | Some f \<Rightarrow>
          if args e \<noteq> [] \<and> krgs e \<noteq> [] then f (args e) (krgs e) u
          else if args e \<noteq> [] then f (args e) [] u
          else if krgs e \<noteq> [] then f [] (krgs e) u
          else f [] [] u)"

definition getattr :: "'u entry \<Rightarrow> retfield \<Rightarrow> string" where
  "getattr e r = (case r of RName \<Rightarrow> name e | RDesc \<Rightarrow> desc e)"

definition show_banner :: "string \<Rightarrow> 'u entry list \<Rightarrow> string list" where
  "show_banner hdr es =
     [''-- MENU'' @ (if hdr \<noteq> [] then '': '' @ hdr else []) @ '' --'']
     @ map (\<lambda>i. ''  ('' @ name i @ '') '' @ desc i) es"

text \<open>\<open>show_menu\<close> from \<open>valid = [i.name for i in entries]\<close> on, that is without a
  limit.\<close>

definition show_menu_nolimit ::
  "setorder \<Rightarrow> penv \<Rightarrow> 'u entry list \<Rightarrow> kwargs \<Rightarrow> 'u world \<Rightarrow> (exn + string) \<times> 'u world" where
  "show_menu_nolimit so pe es kw w =
     (let hdr = (case kw_hdr kw of Some h \<Rightarrow> h | None \<Rightarrow> []);
          note = (case kw_note kw of Some n \<Rightarrow> n | None \<Rightarrow> []);
          msg = (case kw_msg kw of Some m \<Rightarrow> m | None \<Rightarrow> ''Enter menu selection'');
          compact = (case kw_compact kw of Some c \<Rightarrow> c | None \<Rightarrow> False);
          returns = (case kw_returns kw of Some r \<Rightarrow> r | None \<Rightarrow> RName);
          dft0 = (case kw_dft kw of Some d \<Rightarrow> d | None \<Rightarrow> PNone);
          valid = map (\<lambda>i. PStr (name i)) es;
          dft1 = (case dft0 of PInt k \<Rightarrow> PStr (py_str dft0) | _ \<Rightarrow> dft0);
          dft2 = (if dft1 \<notin> set valid then PNone else dft1);
          w1 = w\<lparr>out := out w @ (if \<not> compact then show_banner hdr es else [])
                            @ (if note \<noteq> [] then [''[!] '' @ note] else [])\<rparr>
      in case ask so pe msg None dft2 (Some valid) False None w1 of
           ((Inl e, _), w2) \<Rightarrow> (Inl e, w2)
         | ((Inr choice, _), w2) \<Rightarrow>
             (case filter (\<lambda>i. PStr (name i) = choice) es of
                [] \<Rightarrow> (Inl IndexError, w2)
              | en # _ \<Rightarrow>
                  (case run_func en (user w2) of
                     (Some e, u) \<Rightarrow> (Inl e, w2\<lparr>user := u\<rparr>)
                   | (None, u) \<Rightarrow> (Inr (getattr en returns), w2\<lparr>user := u\<rparr>))))"

text \<open>A slice \<open>xs[a:b]\<close> with Python's treatment of negative and too large indices.\<close>

definition py_slice :: "'a list \<Rightarrow> int \<Rightarrow> int \<Rightarrow> 'a list" where
  "py_slice xs a b =
     (let n = int (length xs);
          a1 = (if a < 0 then max (n + a) 0 else min a n);
          b1 = (if b < 0 then max (n + b) 0 else min b n)
      in drop (nat a1) (take (nat b1) xs))"

definition next_names :: "string list" where
  "next_names = [''n'', ''N'', ''next'', ''NEXT'', ''->'', ''>>'', ''>>>'']"

definition prev_names :: "string list" where
  "prev_names = [''p'', ''P'', ''prev'', ''PREV'', ''<-'', ''<<'', ''<<<'']"

text \<open>What one pass of the loop of \<open>show_limit\<close> shows: the window, the names of the
  entries in it, the names of the synthetic entries (empty when there is none) and the
  default handed to \<open>show_menu\<close>.\<close>

record iteration =
  it_start :: int
  it_end :: int
  it_names :: "string list"
  it_nnext :: string
  it_nprev :: string
  it_tmpdft :: pyobj

text \<open>The local variables of one pass, up to the call of \<open>show_menu\<close>.\<close>

record 'u pass =
  p_start :: int
  p_end :: int
  p_group :: "'u entry list"
  p_nnext :: string
  p_dnext :: string
  p_nprev :: string
  p_dprev :: string
  p_tmpdft :: pyobj

definition window :: "'u entry list \<Rightarrow> int \<Rightarrow> pyobj \<Rightarrow> int \<Rightarrow> int \<Rightarrow> 'u pass" where
  "window es limit dft istart iend =
     (let len = int (length es);
          iend1 = (if iend > len then len else iend);
          istart1 = (if iend > len then len - limit else istart);
          istart2 = (if istart1 < 0 then 0 else istart1);
          iend2 = (if istart1 < 0 then limit else iend1);
          unext = len - iend2;
          uprev = istart2;
          group = py_slice es istart2 iend2;
          names = map name group;
          nnext = (if unext > 0 then find (\<lambda>i. i \<notin> set names) next_names else None);
          dnext = ''Next '' @ str_of_int unext @ '' of '' @ str_of_int len @ '' entries'';
          group1 = (case nnext of
                      Some i \<Rightarrow> group @ [\<lparr>name = i, desc = dnext, func = None, args = [], krgs = []\<rparr>]
                    | None \<Rightarrow> group);
          names1 = (case nnext of Some i \<Rightarrow> names @ [''n''] | None \<Rightarrow> names);
          nprev = (if uprev > 0 then find (\<lambda>i. i \<notin> set names1) prev_names else None);
          dprev = ''Previous '' @ str_of_int uprev @ '' of '' @ str_of_int len @ '' entries'';
          group2 = (case nprev of
                      Some i \<Rightarrow> group1 @ [\<lparr>name = i, desc = dprev, func = None, args = [], krgs = []\<rparr>]
                    | None \<Rightarrow> group1);
          names2 = (case nprev of Some i \<Rightarrow> names1 @ [''p''] | None \<Rightarrow> names1);
          tmpdft = (if dft \<noteq> PNone then
                      (if dft \<notin> set (map PStr names2) then
                         (if ''n'' \<in> set names2 then PStr ''n'' else PNone)
                       else dft)
                    else PNone)
      in \<lparr>p_start = istart2, p_end = iend2, p_group = group2,
          p_nnext = (case nnext of Some i \<Rightarrow> i | None \<Rightarrow> []),
          p_dnext = (case nnext of Some i \<Rightarrow> dnext | None \<Rightarrow> []),
          p_nprev = (case nprev of Some i \<Rightarrow> i | None \<Rightarrow> []),
          p_dprev = (case nprev of Some i \<Rightarrow> dprev | None \<Rightarrow> []),
          p_tmpdft = tmpdft\<rparr>)"

definition iteration_of :: "'u entry list \<Rightarrow> 'u pass \<Rightarrow> iteration" where
  "iteration_of es p =
     \<lparr>it_start = p_start p, it_end = p_end p,
      it_names = map name (py_slice es (p_start p) (p_end p)),
      it_nnext = p_nnext p, it_nprev = p_nprev p, it_tmpdft = p_tmpdft p\<rparr>"

text \<open>The loop of \<open>show_limit\<close>. Besides the result and the state it returns the passes
  made, in order; this record takes no part in the computation.\<close>

function show_limit_loop ::
  "setorder \<Rightarrow> penv \<Rightarrow> 'u entry list \<Rightarrow> int \<Rightarrow> pyobj \<Rightarrow> kwargs \<Rightarrow> int \<Rightarrow> int \<Rightarrow> 'u world
     \<Rightarrow> (exn + string) \<times> 'u world \<times> iteration list" where
  "show_limit_loop so pe es limit dft kw istart iend w =
     (let p = window es limit dft istart iend
      in case show_menu_nolimit so pe (p_group p) (kw\<lparr>kw_dft := Some (p_tmpdft p)\<rparr>) w of
           (Inl e, w1) \<Rightarrow> (Inl e, w1, [iteration_of es p])
         | (Inr result, w1) \<Rightarrow>
             if result = p_nnext p \<or> result = p_dnext p then
               (case show_limit_loop so pe es limit dft kw (p_start p + limit) (p_end p + limit) w1 of
                  (r, w2, its) \<Rightarrow> (r, w2, iteration_of es p # its))
             else if result = p_nprev p \<or> result = p_dprev p then
               (case show_limit_loop so pe es limit dft kw (p_start p - limit) (p_end p - limit) w1 of
                  (r, w2, its) \<Rightarrow> (r, w2, iteration_of es p # its))
             else (Inr result, w1, [iteration_of es p]))"
  by pat_completeness auto
termination
proof (relation "measure (\<lambda>(so, pe, es, limit, dft, kw, istart, iend, w).
                    length (streams w (sys_stdin w)))")
  have loop_shorter: "ask_loop pe a ls ou = (Inr r, rest, o1) \<Longrightarrow> length rest < length ls"
    for pe a ls ou r rest o1
  proof (induction ls arbitrary: ou)
    case Nil
    then show ?case by simp
  next
    case (Cons l ls)
    have "length rest < length ls \<or> rest = ls"
      using Cons.prems Cons.IH
      by (auto simp: Let_def split: if_splits sum.splits option.splits)
    then show ?case by auto
  qed
  have menu_shorter:
    "show_menu_nolimit so pe es kw w = (Inr r, w1) \<Longrightarrow>
       length (streams w1 (sys_stdin w1)) < length (streams w (sys_stdin w))"
    for so pe and es :: "'u entry list" and kw w r w1
    by (auto simp: show_menu_nolimit_def ask_def Let_def
             split: prod.splits sum.splits list.splits option.splits dest: loop_shorter)
  show "wf (measure (\<lambda>(so, pe, es, limit, dft, kw, istart, iend, w).
                    length (streams (w :: 'u world) (sys_stdin w))))"
    by simp
  show "((so, pe, es, limit, dft, kw, p_start p + limit, p_end p + limit, w1),
         (so, pe, es, limit, dft, kw, istart, iend, w))
        \<in> measure (\<lambda>(so, pe, es, limit, dft, kw, istart, iend, w).
                    length (streams w (sys_stdin w)))"
    if "p = window es limit dft istart iend"
      and "(x, w1) = show_menu_nolimit so pe (p_group p) (kw\<lparr>kw_dft := Some (p_tmpdft p)\<rparr>) w"
      and "x = Inr result"
    for so pe and es :: "'u entry list" and limit dft kw istart iend w p x w1 result
    using that menu_shorter [of so pe "p_group p" "kw\<lparr>kw_dft := Some (p_tmpdft p)\<rparr>" w result w1]
    by simp
  show "((so, pe, es, limit, dft, kw, p_start p - limit, p_end p - limit, w1),
         (so, pe, es, limit, dft, kw, istart, iend, w))
        \<in> measure (\<lambda>(so, pe, es, limit, dft, kw, istart, iend, w).
                    length (streams w (sys_stdin w)))"
    if "p = window es limit dft istart iend"
      and "(x, w1) = show_menu_nolimit so pe (p_group p) (kw\<lparr>kw_dft := Some (p_tmpdft p)\<rparr>) w"
      and "x = Inr result"
    for so pe and es :: "'u entry list" and limit dft kw istart iend w p x w1 result
    using that menu_shorter [of so pe "p_group p" "kw\<lparr>kw_dft := Some (p_tmpdft p)\<rparr>" w result w1]
    by simp
qed

declare show_limit_loop.simps [simp del]

definition show_limit ::
  "setorder \<Rightarrow> penv \<Rightarrow> 'u entry list \<Rightarrow> kwargs \<Rightarrow> 'u world
     \<Rightarrow> (exn + string) \<times> 'u world \<times> iteration list" where
  "show_limit so pe es kw w =
     (let limit = (case kw_limit kw of Some l \<Rightarrow> l | None \<Rightarrow> 5);
          kw1 = kw\<lparr>kw_limit := None\<rparr>
      in if limit \<le> 0 then
           (case show_menu_nolimit so pe es kw1 w of (r, w1) \<Rightarrow> (r, w1, []))
         else
           (let dft0 = (case kw_dft kw of Some d \<Rightarrow> d | None \<Rightarrow> PNone);
                dft = (case dft0 of PInt k \<Rightarrow> PStr (py_str dft0) | _ \<Rightarrow> dft0)
            in show_limit_loop so pe es limit dft (kw1\<lparr>kw_dft := None\<rparr>) 0 limit w))"

definition show_menu ::
  "setorder \<Rightarrow> penv \<Rightarrow> 'u entry list \<Rightarrow> kwargs \<Rightarrow> 'u world \<Rightarrow> (exn + string) \<times> 'u world" where
  "show_menu so pe es kw w =
     (if (case kw_limit kw of Some l \<Rightarrow> l \<noteq> 0 | None \<Rightarrow> False)
      then (case show_limit so pe es kw w of (r, w1, its) \<Rightarrow> (r, w1))
      else show_menu_nolimit so pe es kw w)"

section \<open>The menu object and the scripted input\<close>

record 'u menu =
  entries :: "'u entry list"
  show_kwargs :: kwargs

definition Menu_add ::
  "'u menu \<Rightarrow> string \<Rightarrow> string \<Rightarrow> 'u action option \<Rightarrow> pyobj list \<Rightarrow> (string \<times> pyobj) list \<Rightarrow> 'u menu" where
  "Menu_add m n d f a k =
     m\<lparr>entries := entries m @ [\<lparr>name = n, desc = d, func = f, args = a, krgs = k\<rparr>]\<rparr>"

definition Menu_enum ::
  "'u menu \<Rightarrow> string \<Rightarrow> 'u action option \<Rightarrow> pyobj list \<Rightarrow> (string \<times> pyobj) list \<Rightarrow> 'u menu" where
  "Menu_enum m d f a k =
     m\<lparr>entries := entries m
          @ [\<lparr>name = str_of_nat (length (entries m) + 1), desc = d, func = f, args = a, krgs = k\<rparr>]\<rparr>"

fun enum_menu :: "string list \<Rightarrow> 'u menu \<Rightarrow> 'u menu" where
  "enum_menu [] m = m"
| "enum_menu (s # strs) m = enum_menu strs (Menu_enum m s None [] [])"

text \<open>\<open>show_kwargs.update(kwargs)\<close>.\<close>

definition kw_update :: "kwargs \<Rightarrow> kwargs \<Rightarrow> kwargs" where
  "kw_update a b =
     \<lparr>kw_hdr = (case kw_hdr b of Some x \<Rightarrow> Some x | None \<Rightarrow> kw_hdr a),
      kw_note = (case kw_note b of Some x \<Rightarrow> Some x | None \<Rightarrow> kw_note a),
      kw_msg = (case kw_msg b of Some x \<Rightarrow> Some x | None \<Rightarrow> kw_msg a),
      kw_dft = (case kw_dft b of Some x \<Rightarrow> Some x | None \<Rightarrow> kw_dft a),
      kw_compact = (case kw_compact b of Some x \<Rightarrow> Some x | None \<Rightarrow> kw_compact a),
      kw_returns = (case kw_returns b of Some x \<Rightarrow> Some x | None \<Rightarrow> kw_returns a),
      kw_limit = (case kw_limit b of Some x \<Rightarrow> Some x | None \<Rightarrow> kw_limit a)\<rparr>"

definition Menu_show ::
  "setorder \<Rightarrow> penv \<Rightarrow> 'u menu \<Rightarrow> kwargs \<Rightarrow> 'u world \<Rightarrow> (exn + string) \<times> 'u world" where
  "Menu_show so pe m kw w = show_menu so pe (entries m) (kw_update (show_kwargs m) kw) w"

definition Menu_run :: "'u menu \<Rightarrow> string \<Rightarrow> 'u \<Rightarrow> exn option \<times> 'u" where
  "Menu_run m n u =
     (case filter (\<lambda>e. name e = n) (entries m) of
        [] \<Rightarrow> (None, u)
      | e # _ \<Rightarrow> run_func e u)"

text \<open>The lines that \<open>input\<close> reads from a stream holding the text \<open>x\<close>: each line
  ends at a newline; a last line without one is read as it is.\<close>

fun split_lines :: "string \<Rightarrow> string \<Rightarrow> string list" where
  "split_lines cur [] = (if cur = [] then [] else [cur])"
| "split_lines cur (c # cs) =
     (if c = CHR 0x0A then cur # split_lines [] cs else split_lines (cur @ [c]) cs)"

definition StdinSetup_setup :: "'u world \<Rightarrow> 'u world" where
  "StdinSetup_setup w = w\<lparr>sys_stdin := setup_stream w\<rparr>"

definition StdinSetup_teardown :: "'u world \<Rightarrow> 'u world" where
  "StdinSetup_teardown w = w\<lparr>sys_stdin := setup_original w\<rparr>"

definition setinput :: "string \<Rightarrow> 'u world \<Rightarrow> 'u world" where
  "setinput x w = w\<lparr>streams := (streams w)(sys_stdin w := split_lines [] x)\<rparr>"

text \<open>\<open>StdinAuto\<close>: the constructor gives the field \<open>auto\<close>.\<close>

definition StdinAuto_init :: "string list option \<Rightarrow> 'u world \<Rightarrow> string list" where
  "StdinAuto_init auto w =
     (case auto of Some a \<Rightarrow> (if a \<noteq> [] then a else argv w) | None \<Rightarrow> argv w)"

definition StdinAuto_enter :: "string list \<Rightarrow> 'u world \<Rightarrow> 'u world" where
  "StdinAuto_enter a w =
     (if a \<noteq> [] then setinput (join [CHR 0x0A] a) (StdinSetup_setup w) else w)"

definition StdinAuto_exit :: "'u world \<Rightarrow> 'u world" where
  "StdinAuto_exit w = StdinSetup_teardown w"

text \<open>The loop \<open>while self.show(note=note, **kwargs) not in quit: pass\<close>. With \<open>quit\<close>
  being \<open>None\<close> the membership test raises \<open>TypeError\<close>.\<close>

function main_loop ::
  "setorder \<Rightarrow> penv \<Rightarrow> 'u menu \<Rightarrow> (string \<times> string) option \<Rightarrow> kwargs \<Rightarrow> 'u world
     \<Rightarrow> (exn + string option) \<times> 'u world" where
  "main_loop so pe m quit kw w =
     (case Menu_show so pe m kw w of
        (Inl e, w1) \<Rightarrow> (Inl e, w1)
      | (Inr r, w1) \<Rightarrow>
          (case quit of
             None \<Rightarrow> (Inl TypeError, w1)
           | Some q \<Rightarrow>
               if r = fst q \<or> r = snd q then (Inr None, w1)
               else main_loop so pe m quit kw w1))"
  by pat_completeness auto
termination
proof (relation "measure (\<lambda>(so, pe, m, quit, kw, w). length (streams w (sys_stdin w)))")
  have loop_shorter: "ask_loop pe a ls ou = (Inr r, rest, o1) \<Longrightarrow> length rest < length ls"
    for pe a ls ou r rest o1
  proof (induction ls arbitrary: ou)
    case Nil
    then show ?case by simp
  next
    case (Cons l ls)
    have "length rest < length ls \<or> rest = ls"
      using Cons.prems Cons.IH
      by (auto simp: Let_def split: if_splits sum.splits option.splits)
    then show ?case by auto
  qed
  have menu_shorter:
    "show_menu_nolimit so pe es kw w = (Inr r, w1) \<Longrightarrow>
       length (streams w1 (sys_stdin w1)) < length (streams w (sys_stdin w))"
    for so pe and es :: "'u entry list" and kw w r w1
    by (auto simp: show_menu_nolimit_def ask_def Let_def
             split: prod.splits sum.splits list.splits option.splits dest: loop_shorter)
  have limit_shorter:
    "show_limit_loop so pe es limit dft kw istart iend w = (Inr r, w1, its) \<Longrightarrow>
       length (streams w1 (sys_stdin w1)) < length (streams w (sys_stdin w))"
    for so pe and es :: "'u entry list" and limit dft kw istart iend w r w1 its
  proof (induction so pe es limit dft kw istart iend w arbitrary: its
         rule: show_limit_loop.induct)
    case (1 so pe es limit dft kw istart iend w)
    define p where "p = window es limit dft istart iend"
    obtain x w0 where sm:
      "show_menu_nolimit so pe (p_group p) (kw\<lparr>kw_dft := Some (p_tmpdft p)\<rparr>) w = (x, w0)"
      by (cases "show_menu_nolimit so pe (p_group p) (kw\<lparr>kw_dft := Some (p_tmpdft p)\<rparr>) w")
    from "1.prems" sm obtain result where x: "x = Inr result"
      by (cases x) (auto simp: show_limit_loop.simps [of so pe es limit dft kw istart iend w] p_def Let_def)
    have step: "length (streams w0 (sys_stdin w0)) < length (streams w (sys_stdin w))"
      using menu_shorter sm x by blast
    show ?case
    proof (cases "result = p_nnext p \<or> result = p_dnext p")
      case True
      obtain r2 w2 its2 where rec:
        "show_limit_loop so pe es limit dft kw (p_start p + limit) (p_end p + limit) w0 = (r2, w2, its2)"
        by (metis prod_cases3)
      have "r2 = Inr r" "w2 = w1"
        using "1.prems" sm x True rec
        by (auto simp: show_limit_loop.simps [of so pe es limit dft kw istart iend w] p_def Let_def)
      then have "length (streams w1 (sys_stdin w1)) < length (streams w0 (sys_stdin w0))"
        using "1.IH"(1) [OF p_def sm [symmetric] x True] rec by simp
      then show ?thesis using step by simp
    next
      case False
      note notnext = False
      show ?thesis
      proof (cases "result = p_nprev p \<or> result = p_dprev p")
        case True
        obtain r2 w2 its2 where rec:
          "show_limit_loop so pe es limit dft kw (p_start p - limit) (p_end p - limit) w0 = (r2, w2, its2)"
          by (metis prod_cases3)
        have "r2 = Inr r" "w2 = w1"
          using "1.prems" sm x True notnext rec
          by (auto simp: show_limit_loop.simps [of so pe es limit dft kw istart iend w] p_def Let_def)
        then have "length (streams w1 (sys_stdin w1)) < length (streams w0 (sys_stdin w0))"
          using "1.IH"(2) [OF p_def sm [symmetric] x notnext True] rec by simp
        then show ?thesis using step by simp
      next
        case False
        then have "w1 = w0"
          using "1.prems" sm x notnext
          by (auto simp: show_limit_loop.simps [of so pe es limit dft kw istart iend w] p_def Let_def)
        then show ?thesis using step by simp
      qed
    qed
  qed
  have show_limit_shorter:
    "length (streams w1 (sys_stdin w1)) < length (streams w (sys_stdin w))"
    if sl: "show_limit so pe es kw w = (Inr r, w1, its)"
    for so pe and es :: "'u entry list" and kw w r w1 its
  proof (cases "(case kw_limit kw of Some l \<Rightarrow> l | None \<Rightarrow> 5) \<le> 0")
    case True
    then have "show_menu_nolimit so pe es (kw\<lparr>kw_limit := None\<rparr>) w = (Inr r, w1)"
      using sl by (simp add: show_limit_def Let_def split: prod.splits)
    then show ?thesis by (rule menu_shorter)
  next
    case False
    then obtain l d k where "show_limit_loop so pe es l d k 0 l w = (Inr r, w1, its)"
      using sl by (simp add: show_limit_def Let_def)
    then show ?thesis by (rule limit_shorter)
  qed
  have show_menu_shorter:
    "length (streams w1 (sys_stdin w1)) < length (streams w (sys_stdin w))"
    if sm: "show_menu so pe es kw w = (Inr r, w1)"
    for so pe and es :: "'u entry list" and kw w r w1
  proof (cases "(case kw_limit kw of Some l \<Rightarrow> l \<noteq> 0 | None \<Rightarrow> False)")
    case True
    then obtain its where "show_limit so pe es kw w = (Inr r, w1, its)"
      using sm by (auto simp add: show_menu_def split: prod.splits)
    then show ?thesis by (rule show_limit_shorter)
  next
    case False
    then have "show_menu_nolimit so pe es kw w = (Inr r, w1)"
      using sm by (simp add: show_menu_def)
    then show ?thesis by (rule menu_shorter)
  qed
  show "wf (measure (\<lambda>(so, pe, m, quit, kw, w). length (streams (w :: 'u world) (sys_stdin w))))"
    by simp
  show "((so, pe, m, quit, kw, w1), (so, pe, m, quit, kw, w))
        \<in> measure (\<lambda>(so, pe, m, quit, kw, w). length (streams w (sys_stdin w)))"
    if "(x, w1) = Menu_show so pe m kw w" and "x = Inr r"
    for so pe and m :: "'u menu" and quit :: "(string \<times> string) option" and kw w x w1 r
    using that show_menu_shorter [of so pe "entries m" "kw_update (show_kwargs m) kw" w r w1]
    by (simp add: Menu_show_def)
qed

declare main_loop.simps [simp del]

text \<open>\<open>Menu.main\<close>: the selection returned (nothing in loop mode) or the exception
  raised, the menu after the call and the new state. \<open>quit\<close> is \<open>None\<close> or a pair of
  name and description.\<close>

definition Menu_main ::
  "setorder \<Rightarrow> penv \<Rightarrow> 'u menu \<Rightarrow> string list option \<Rightarrow> bool \<Rightarrow> (string \<times> string) option
     \<Rightarrow> kwargs \<Rightarrow> 'u world \<Rightarrow> (exn + string option) \<times> 'u menu \<times> 'u world" where
  "Menu_main so pe m auto loop quit kw w =
     (case (case quit of
              None \<Rightarrow> Inr m
            | Some q \<Rightarrow>
                if entries m = [] then Inl IndexError
                else if (name (last (entries m)), desc (last (entries m))) \<noteq> q
                  then Inr (Menu_add m (fst q) (snd q) None [] [])
                else Inr m) of
        Inl e \<Rightarrow> (Inl e, m, w)
      | Inr m1 \<Rightarrow>
          (let a = StdinAuto_init auto w;
               w1 = StdinAuto_enter a w;
               (r, w2) =
                 (if loop then
                    main_loop so pe m1 quit (kw\<lparr>kw_note := Some ''Menu loops until quit.''\<rparr>) w1
                  else
                    (case Menu_show so pe m1
                            (kw\<lparr>kw_note := Some ''Menu does not loop, single entry.''\<rparr>) w1 of
                       (Inl e, w2) \<Rightarrow> (Inl e, w2)
                     | (Inr s, w2) \<Rightarrow> (Inr (Some s), w2)))
           in (r, m1, StdinAuto_exit w2)))"

section \<open>Scenarios\<close>

text \<open>An environment without function objects, a process whose standard input holds
  the given lines, absent keyword arguments, an entry without action, an empty menu.\<close>

definition no_funs :: penv where
  "no_funs = (\<lambda>f x. None)"

definition scripted :: "string list \<Rightarrow> unit world" where
  "scripted ls =
     \<lparr>sys_stdin = 0, streams = (\<lambda>k. [])(0 := ls), setup_stream = 1, setup_original = 0,
      argv = [], out = [], user = ()\<rparr>"

definition no_kwargs :: kwargs where
  "no_kwargs =
     \<lparr>kw_hdr = None, kw_note = None, kw_msg = None, kw_dft = None, kw_compact = None,
      kw_returns = None, kw_limit = None\<rparr>"

definition plain_entry :: "string \<Rightarrow> string \<Rightarrow> unit entry" where
  "plain_entry n d = \<lparr>name = n, desc = d, func = None, args = [], krgs = []\<rparr>"

definition empty_menu :: "unit menu" where
  "empty_menu = \<lparr>entries = [], show_kwargs = no_kwargs\<rparr>"

text \<open>The menu of seven enumerated entries, named \<open>1\<close> to \<open>7\<close>.\<close>

definition seven :: "unit entry list" where
  "seven = entries (enum_menu [''a'', ''b'', ''c'', ''d'', ''e'', ''f'', ''g''] empty_menu)"


text \<open>An action that raises.\<close>

definition failing_action :: "unit action" where
  "failing_action a k u = (Some ActionRaised, u)"

text \<open>The menu of the test script: an entry whose action fails and one without action.\<close>

definition g_menu :: "unit menu" where
  "g_menu = Menu_add (Menu_add empty_menu ''g'' ''Generate file'' (Some failing_action) [] [])
              ''d'' ''Delete file'' None [] []"

section \<open>Properties\<close>

text \<open>What is shown in one pass of \<open>show_limit\<close> lies in these bounds.\<close>

definition window_ok :: "int \<Rightarrow> nat \<Rightarrow> iteration \<Rightarrow> bool" where
  "window_ok limit len it =
     (0 \<le> it_start it \<and> it_start it \<le> it_end it \<and> it_end it - it_start it = limit
      \<and> it_end it \<le> max limit (int len) \<and> length (it_names it) \<le> nat limit)"

text \<open>Two states name the same input sources.\<close>

definition same_sources :: "'u world \<Rightarrow> 'u world \<Rightarrow> bool" where
  "same_sources w w1 =
     (sys_stdin w1 = sys_stdin w \<and> setup_original w1 = setup_original w
      \<and> setup_stream w1 = setup_stream w)"

text \<open>What is known of \<open>list(set(xs))\<close>: the elements of \<open>xs\<close>, each once. A set
  keeps one of an integer and a float that are equal, so this is said of the lists
  without floats only, where equal objects are the same object.\<close>

definition admissible :: "setorder \<Rightarrow> bool" where
  "admissible so =
     (\<forall>xs. list_all (\<lambda>x. \<not> is_float x) xs \<longrightarrow> set (so xs) = set xs \<and> distinct (so xs))"



subsection \<open>Conversions and validation\<close>

lemma sanitize_identity: "sanitize Some vs = Inr vs"
  by (induction vs) (auto simp: truthy_def)

lemma set_py_sorted: "py_sorted xs = Some ys \<Longrightarrow> set ys = set xs"
  by (auto simp: py_sorted_def split: if_splits)


lemma cast_int_int: "cast (PInt i) TInt = PInt i"
  by (simp add: cast_def call_type_def)

lemma cast_float_float: "cast (PFloat q) TFloat = PFloat q"
  by (simp add: cast_def call_type_def)




























subsection \<open>The window of \<open>show_limit\<close>\<close>

lemma window_start_end:
  assumes "0 < limit" and "iend = istart + limit"
  shows "0 \<le> p_start (window es limit dft istart iend)"
    and "p_end (window es limit dft istart iend) = p_start (window es limit dft istart iend) + limit"
    and "p_end (window es limit dft istart iend) \<le> max limit (int (length es))"
  using assms by (auto simp: window_def Let_def)

lemma length_py_slice: "0 \<le> a \<Longrightarrow> a \<le> b \<Longrightarrow> length (py_slice xs a b) \<le> nat (b - a)"
  by (auto simp: py_slice_def Let_def)

lemma iteration_ok:
  assumes "0 < limit" and "iend = istart + limit"
  shows "window_ok limit (length es) (iteration_of es (window es limit dft istart iend))"
  using assms(1) window_start_end [OF assms, of es dft]
    length_py_slice [of "p_start (window es limit dft istart iend)"
                        "p_end (window es limit dft istart iend)" es]
  by (simp add: window_ok_def iteration_of_def)

lemma loop_windows:
  assumes "0 < limit" and "iend = istart + limit"
  shows "list_all (window_ok limit (length es))
           (snd (snd (show_limit_loop so pe es limit dft kw istart iend w)))"
  using assms
proof (induction so pe es limit dft kw istart iend w rule: show_limit_loop.induct)
  case (1 so pe es limit dft kw istart iend w)
  define p where "p = window es limit dft istart iend"
  have here: "window_ok limit (length es) (iteration_of es p)"
    unfolding p_def using "1.prems" by (rule iteration_ok)
  have se: "p_end p = p_start p + limit"
    unfolding p_def using "1.prems" by (rule window_start_end)
  obtain x w1 where sm:
    "show_menu_nolimit so pe (p_group p) (kw\<lparr>kw_dft := Some (p_tmpdft p)\<rparr>) w = (x, w1)"
    by (cases "show_menu_nolimit so pe (p_group p) (kw\<lparr>kw_dft := Some (p_tmpdft p)\<rparr>) w")
  show ?case
  proof (cases x)
    case (Inl e)
    then show ?thesis
      using here sm
      by (simp add: show_limit_loop.simps [of so pe es limit dft kw istart iend w] p_def [symmetric])
  next
    case (Inr result)
    show ?thesis
    proof (cases "result = p_nnext p \<or> result = p_dnext p")
      case True
      have "list_all (window_ok limit (length es))
              (snd (snd (show_limit_loop so pe es limit dft kw (p_start p + limit) (p_end p + limit) w1)))"
        using "1.IH"(1) [OF p_def sm [symmetric] Inr True] "1.prems"(1) se by simp
      then show ?thesis
        using here sm Inr True
        by (simp add: show_limit_loop.simps [of so pe es limit dft kw istart iend w] p_def [symmetric]
                 case_prod_beta)
    next
      case False
      note notnext = False
      show ?thesis
      proof (cases "result = p_nprev p \<or> result = p_dprev p")
        case True
        have "list_all (window_ok limit (length es))
                (snd (snd (show_limit_loop so pe es limit dft kw (p_start p - limit) (p_end p - limit) w1)))"
          using "1.IH"(2) [OF p_def sm [symmetric] Inr notnext True] "1.prems"(1) se by simp
        then show ?thesis
          using here sm Inr True notnext
          by (simp add: show_limit_loop.simps [of so pe es limit dft kw istart iend w] p_def [symmetric]
                   case_prod_beta)
      next
        case False
        then show ?thesis
          using here sm Inr notnext
          by (simp add: show_limit_loop.simps [of so pe es limit dft kw istart iend w] p_def [symmetric])
      qed
    qed
  qed
qed


subsection \<open>The input sources are left alone by prompts and menus\<close>

lemma ask_sources: "same_sources w (snd (ask so pe msg fmt dft vld blk hlp w))"
  by (simp add: ask_def same_sources_def split: prod.splits sum.splits)

lemma show_menu_nolimit_sources: "same_sources w (snd (show_menu_nolimit so pe es kw w))"
proof -
  define w1 where "w1 = w\<lparr>out := out w
      @ (if \<not> (case kw_compact kw of Some c \<Rightarrow> c | None \<Rightarrow> False)
         then show_banner (case kw_hdr kw of Some h \<Rightarrow> h | None \<Rightarrow> []) es else [])
      @ (if (case kw_note kw of Some n \<Rightarrow> n | None \<Rightarrow> []) \<noteq> []
         then [''[!] '' @ (case kw_note kw of Some n \<Rightarrow> n | None \<Rightarrow> [])] else [])\<rparr>"
  define msg where "msg = (case kw_msg kw of Some m \<Rightarrow> m | None \<Rightarrow> ''Enter menu selection'')"
  define valid where "valid = map (\<lambda>i. PStr (name i)) es"
  define dft0 where "dft0 = (case kw_dft kw of Some d \<Rightarrow> d | None \<Rightarrow> PNone)"
  define dft1 where "dft1 = (case dft0 of PInt k \<Rightarrow> PStr (py_str dft0) | _ \<Rightarrow> dft0)"
  define dft2 where "dft2 = (if dft1 \<notin> set valid then PNone else dft1)"
  obtain r c w2 where a: "ask so pe msg None dft2 (Some valid) False None w1 = ((r, c), w2)"
    by (metis prod.collapse)
  have "same_sources w1 w2"
    using ask_sources [of w1 so pe msg None dft2 "Some valid" False None] a by simp
  then have s2: "same_sources w w2"
    by (simp add: w1_def same_sources_def)
  have unf: "show_menu_nolimit so pe es kw w =
     (case r of
        Inl e \<Rightarrow> (Inl e, w2)
      | Inr choice \<Rightarrow>
          (case filter (\<lambda>i. PStr (name i) = choice) es of
             [] \<Rightarrow> (Inl IndexError, w2)
           | en # _ \<Rightarrow>
               (case run_func en (user w2) of
                  (Some e, u) \<Rightarrow> (Inl e, w2\<lparr>user := u\<rparr>)
                | (None, u) \<Rightarrow>
                    (Inr (getattr en (case kw_returns kw of Some r \<Rightarrow> r | None \<Rightarrow> RName)),
                     w2\<lparr>user := u\<rparr>))))"
    unfolding show_menu_nolimit_def Let_def
    using a unfolding w1_def msg_def valid_def dft2_def dft1_def dft0_def
    by (simp split: sum.splits)
  show ?thesis
  proof (cases r)
    case (Inl e)
    then show ?thesis using s2 unf by simp
  next
    case (Inr choice)
    show ?thesis
    proof (cases "filter (\<lambda>i. PStr (name i) = choice) es")
      case Nil
      then show ?thesis using s2 unf Inr by simp
    next
      case (Cons en ens)
      obtain eo u where rf: "run_func en (user w2) = (eo, u)"
        by (cases "run_func en (user w2)")
      show ?thesis
        using s2 unf Inr Cons rf by (cases eo) (simp_all add: same_sources_def)
    qed
  qed
qed

lemma show_limit_loop_sources:
  "same_sources w (fst (snd (show_limit_loop so pe es limit dft kw istart iend w)))"
proof (induction so pe es limit dft kw istart iend w rule: show_limit_loop.induct)
  case (1 so pe es limit dft kw istart iend w)
  define p where "p = window es limit dft istart iend"
  obtain x w1 where sm:
    "show_menu_nolimit so pe (p_group p) (kw\<lparr>kw_dft := Some (p_tmpdft p)\<rparr>) w = (x, w1)"
    by (cases "show_menu_nolimit so pe (p_group p) (kw\<lparr>kw_dft := Some (p_tmpdft p)\<rparr>) w")
  have first: "same_sources w w1"
    using show_menu_nolimit_sources [of w so pe "p_group p" "kw\<lparr>kw_dft := Some (p_tmpdft p)\<rparr>"] sm
    by simp
  show ?case
  proof (cases x)
    case (Inl e)
    then show ?thesis
      using first sm
      by (simp add: show_limit_loop.simps [of so pe es limit dft kw istart iend w] p_def [symmetric])
  next
    case (Inr result)
    show ?thesis
    proof (cases "result = p_nnext p \<or> result = p_dnext p")
      case True
      have "same_sources w1
              (fst (snd (show_limit_loop so pe es limit dft kw (p_start p + limit) (p_end p + limit) w1)))"
        using "1.IH"(1) [OF p_def sm [symmetric] Inr True] .
      then show ?thesis
        using first sm Inr True
        by (simp add: show_limit_loop.simps [of so pe es limit dft kw istart iend w] p_def [symmetric]
                 case_prod_beta same_sources_def)
    next
      case False
      note notnext = False
      show ?thesis
      proof (cases "result = p_nprev p \<or> result = p_dprev p")
        case True
        have "same_sources w1
                (fst (snd (show_limit_loop so pe es limit dft kw (p_start p - limit) (p_end p - limit) w1)))"
          using "1.IH"(2) [OF p_def sm [symmetric] Inr notnext True] .
        then show ?thesis
          using first sm Inr True notnext
          by (simp add: show_limit_loop.simps [of so pe es limit dft kw istart iend w] p_def [symmetric]
                   case_prod_beta same_sources_def)
      next
        case False
        then show ?thesis
          using first sm Inr notnext
          by (simp add: show_limit_loop.simps [of so pe es limit dft kw istart iend w] p_def [symmetric])
      qed
    qed
  qed
qed

lemma show_menu_sources: "same_sources w (snd (show_menu so pe es kw w))"
  using show_menu_nolimit_sources [of w so pe es kw]
    show_menu_nolimit_sources [of w so pe es "kw\<lparr>kw_limit := None\<rparr>"]
    show_limit_loop_sources [of w so pe es]
  by (simp add: show_menu_def show_limit_def Let_def case_prod_beta)

lemma main_loop_sources: "same_sources w (snd (main_loop so pe m quit kw w))"
proof (induction so pe m quit kw w rule: main_loop.induct)
  case (1 so pe m quit kw w)
  obtain x w1 where ms: "Menu_show so pe m kw w = (x, w1)"
    by (cases "Menu_show so pe m kw w")
  have first: "same_sources w w1"
    using show_menu_sources [of w so pe "entries m" "kw_update (show_kwargs m) kw"] ms
    by (simp add: Menu_show_def)
  note unf = main_loop.simps [of so pe m quit kw w]
  show ?case
  proof (cases x)
    case (Inl e)
    then show ?thesis using first ms unf by simp
  next
    case (Inr r)
    show ?thesis
    proof (cases quit)
      case None
      then show ?thesis using first ms Inr unf by simp
    next
      case (Some q)
      show ?thesis
      proof (cases "r = fst q \<or> r = snd q")
        case True
        then show ?thesis
          using first ms Inr Some unf by simp
      next
        case False
        have "same_sources w1 (snd (main_loop so pe m quit kw w1))"
          using "1.IH" [OF ms [symmetric] Inr Some False] .
        then show ?thesis
          using first ms Inr Some False unf
          by (simp add: same_sources_def)
      qed
    qed
  qed
qed



subsection \<open>The help request\<close>

text \<open>A help request that does not raise leaves the loop where it was; it raises
  exactly when blank input is allowed and there are no rules.\<close>

lemma help_resumes:
  "print_help a = Inr ls \<Longrightarrow>
     ask_loop pe a (''?'' # rest) ou = ask_loop pe a rest (ou @ [a_msg a] @ ls)"
  by simp

lemma help_raises_iff:
  assumes "snd (ask_setup so msg fmt dft vld blk hlp) = Inr a"
  shows "(print_help a = Inl ValueError) = (a_blk a \<and> a_vld a = [])"
proof -
  have "a_blk a \<Longrightarrow> a_vld a \<noteq> [] \<Longrightarrow> PStr [] \<in> set (a_vld a)"
    using assms
    by (auto simp: ask_setup_def Let_def split: option.splits sum.splits if_splits
             dest: set_py_sorted)
  then show ?thesis
    by (auto simp: print_help_def Let_def callable_def)
qed

subsection \<open>The order of a set does not matter for rules that sort\<close>

text \<open>Rules that are all integers or all strings are sorted after \<open>list(set(...))\<close>,
  and no function is called to validate against them: the prompts of a menu, whose rules
  are the names of its entries, do not depend on the order of the set nor on the
  functions.\<close>

lemma admissible_remdups: "admissible remdups"
  by (simp add: admissible_def)

lemma sort_key_same:
  assumes "set ys = set xs" and "distinct ys" and "distinct xs" and "inj_on f (set xs)"
  shows "sort_key f ys = sort_key f xs"
proof (rule sort_key_inj_key_eq)
  show "mset ys = mset (sort_key f xs)"
    using assms(1-3) by (simp add: set_eq_iff_mset_eq_distinct [symmetric])
  show "inj_on f (set ys)" using assms by simp
  show "sorted (map f (sort_key f xs))" by simp
qed

lemma short_same:
  assumes "set ys = set xs" and "distinct ys" and "distinct xs" and "length xs \<le> 1"
  shows "ys = xs"
proof -
  have len: "length ys = length xs"
    using assms(1-3) by (metis distinct_card)
  show ?thesis
  proof (cases xs)
    case Nil
    then show ?thesis using assms by simp
  next
    case (Cons x xs')
    then have "xs = [x]" using assms(4) by simp
    then show ?thesis using len assms(1) by (cases ys) auto
  qed
qed

lemma py_sorted_order:
  assumes "set ys = set xs" and "distinct ys" and "distinct xs"
    and "list_all is_int xs \<or> list_all is_str xs"
  shows "(case py_sorted ys of Some s \<Rightarrow> s | None \<Rightarrow> ys)
         = (case py_sorted xs of Some s \<Rightarrow> s | None \<Rightarrow> xs)"
proof (cases "length xs \<le> 1")
  case True
  then show ?thesis using short_same [OF assms(1-3)] by auto
next
  case False
  have len: "length ys = length xs"
    using assms(1-3) by (metis distinct_card)
  have alls: "list_all is_int ys = list_all is_int xs" "list_all is_str ys = list_all is_str xs"
    "list_all (\<lambda>x. is_int x \<or> is_float x) ys = list_all (\<lambda>x. is_int x \<or> is_float x) xs"
    using assms(1) by (simp_all add: list_all_iff)
  have nomix: "list_all is_str xs \<Longrightarrow> \<not> list_all (\<lambda>x. is_int x \<or> is_float x) xs"
    using False by (cases xs) (auto simp: is_str_def is_int_def is_float_def split: pyobj.splits)
  have inj_i: "list_all is_int xs \<Longrightarrow> inj_on (\<lambda>x. case x of PInt i \<Rightarrow> i | _ \<Rightarrow> 0) (set xs)"
    by (auto simp: inj_on_def list_all_iff is_int_def split: pyobj.splits)
  have inj_s: "list_all is_str xs \<Longrightarrow> inj_on (\<lambda>x. case x of PStr s \<Rightarrow> s | _ \<Rightarrow> []) (set xs)"
    by (auto simp: inj_on_def list_all_iff is_str_def split: pyobj.splits)
  show ?thesis
    using False len alls nomix assms(4) sort_key_same [OF assms(1-3) inj_i]
      sort_key_same [OF assms(1-3) inj_s]
    by (auto simp: py_sorted_def)
qed


lemma validate_no_funs:
  "\<forall>f. PFun f \<notin> set rest \<Longrightarrow> validate pe vld rest ans = validate no_funs vld rest ans"
proof (induction rest)
  case Nil
  then show ?case by simp
next
  case (Cons v rest)
  then show ?case by (cases v) (auto simp: call_rule_def)
qed

lemma ask_loop_no_funs:
  "\<forall>f. PFun f \<notin> set (a_vld a) \<Longrightarrow> ask_loop pe a ls ou = ask_loop no_funs a ls ou"
proof (induction ls arbitrary: ou)
  case Nil
  then show ?case by simp
next
  case (Cons l ls)
  have "validate pe (a_vld a) (a_vld a) x = validate no_funs (a_vld a) (a_vld a) x" for x
    using Cons.prems by (rule validate_no_funs)
  then have "format_validate pe (a_fmt a) (a_vld a) x = format_validate no_funs (a_fmt a) (a_vld a) x"
    for x
    by (simp add: format_validate_def Let_def)
  then show ?case using Cons by (simp add: Let_def split: sum.splits option.splits)
qed

lemma ask_names:
  assumes "admissible so" and "list_all is_str valid" and "dft = PNone \<or> is_str dft"
  shows "ask so pe msg None dft (Some valid) False None w
         = ask remdups no_funs msg None dft (Some valid) False None w"
proof -
  define vld1 where "vld1 = (if dft \<noteq> PNone then valid @ [dft] else valid)"
  have strs: "list_all is_str vld1"
    using assms(2,3) by (auto simp: vld1_def)
  have "list_all (\<lambda>x. \<not> is_float x) vld1"
    using strs by (auto simp: list_all_iff is_str_def is_float_def split: pyobj.splits)
  then have so: "set (so vld1) = set vld1" "distinct (so vld1)"
    using assms(1) unfolding admissible_def by blast+
  have same: "(case py_sorted (so vld1) of Some s \<Rightarrow> s | None \<Rightarrow> so vld1)
              = (case py_sorted (remdups vld1) of Some s \<Rightarrow> s | None \<Rightarrow> remdups vld1)"
    using so strs by (intro py_sorted_order) (simp_all add: list_all_iff)
  have prep: "ask_setup so msg None dft (Some valid) False None
              = ask_setup remdups msg None dft (Some valid) False None"
  proof (cases "dft = PNone")
    case True
    then have "vld1 = valid" by (simp add: vld1_def)
    then show ?thesis
      using True same [unfolded \<open>vld1 = valid\<close>]
      by (simp add: ask_setup_def Let_def sanitize_identity)
  next
    case False
    then have "vld1 = valid @ [dft]" by (simp add: vld1_def)
    then show ?thesis
      using False same [unfolded \<open>vld1 = valid @ [dft]\<close>]
      by (simp add: ask_setup_def Let_def sanitize_identity)
  qed
  have "set (a_vld a) \<subseteq> set vld1" if "snd (ask_setup remdups msg None dft (Some valid) False None) = Inr a"
    for a
    using that
    by (auto simp: ask_setup_def Let_def sanitize_identity vld1_def
             split: if_splits option.splits dest: set_py_sorted)
  then have nofun: "\<forall>f. PFun f \<notin> set (a_vld a)"
    if "snd (ask_setup remdups msg None dft (Some valid) False None) = Inr a" for a
    using that strs by (fastforce simp: list_all_iff is_str_def)
  obtain c r where su: "ask_setup remdups msg None dft (Some valid) False None = (c, r)"
    by (cases "ask_setup remdups msg None dft (Some valid) False None")
  show ?thesis
  proof (cases r)
    case (Inl e)
    then show ?thesis by (simp add: ask_def prep su)
  next
    case (Inr a)
    then have "ask_loop pe a ls ou = ask_loop no_funs a ls ou" for ls ou
      using nofun [of a] su by (intro ask_loop_no_funs) simp
    then show ?thesis using Inr by (simp add: ask_def prep su)
  qed
qed


lemma show_menu_nolimit_order:
  assumes "admissible so"
  shows "show_menu_nolimit so pe es kw w = show_menu_nolimit remdups no_funs es kw w"
proof -
  have strs: "list_all is_str (map (\<lambda>i. PStr (name i)) es)"
    by (simp add: list_all_iff is_str_def)
  have a: "ask so pe msg None d (Some (map (\<lambda>i. PStr (name i)) es)) False None w1
           = ask remdups no_funs msg None d (Some (map (\<lambda>i. PStr (name i)) es)) False None w1"
    if "d = PNone \<or> d \<in> set (map (\<lambda>i. PStr (name i)) es)" for msg d and w1 :: "'a world"
    using that by (intro ask_names [OF assms strs]) (auto simp: is_str_def)
  show ?thesis
    unfolding show_menu_nolimit_def Let_def
    by (subst a) auto
qed

lemma show_limit_loop_order:
  assumes "admissible so"
  shows "so2 = remdups \<Longrightarrow> pe2 = no_funs \<Longrightarrow>
         show_limit_loop so pe es limit dft kw istart iend w
         = show_limit_loop so2 pe2 es limit dft kw istart iend w"
proof (induction so2 pe2 es limit dft kw istart iend w rule: show_limit_loop.induct)
  case (1 so2 pe2 es limit dft kw istart iend w)
  define p where "p = window es limit dft istart iend"
  have same: "show_menu_nolimit so pe (p_group p) (kw\<lparr>kw_dft := Some (p_tmpdft p)\<rparr>) w
              = show_menu_nolimit so2 pe2 (p_group p) (kw\<lparr>kw_dft := Some (p_tmpdft p)\<rparr>) w"
    using "1.prems" by (simp add: show_menu_nolimit_order [OF assms])
  obtain x w1 where sm:
    "show_menu_nolimit so2 pe2 (p_group p) (kw\<lparr>kw_dft := Some (p_tmpdft p)\<rparr>) w = (x, w1)"
    by (cases "show_menu_nolimit so2 pe2 (p_group p) (kw\<lparr>kw_dft := Some (p_tmpdft p)\<rparr>) w")
  note unf1 = show_limit_loop.simps [of so pe es limit dft kw istart iend w]
  note unf2 = show_limit_loop.simps [of so2 pe2 es limit dft kw istart iend w]
  show ?case
  proof (cases x)
    case (Inl e)
    then show ?thesis
      using same sm by (simp add: unf1 unf2 p_def [symmetric])
  next
    case (Inr result)
    show ?thesis
    proof (cases "result = p_nnext p \<or> result = p_dnext p")
      case True
      have "show_limit_loop so pe es limit dft kw (p_start p + limit) (p_end p + limit) w1
            = show_limit_loop so2 pe2 es limit dft kw (p_start p + limit) (p_end p + limit) w1"
        using "1.IH"(1) [OF p_def sm [symmetric] Inr True] "1.prems" by simp
      then show ?thesis
        using same sm Inr True by (simp add: unf1 unf2 p_def [symmetric])
    next
      case False
      note notnext = False
      show ?thesis
      proof (cases "result = p_nprev p \<or> result = p_dprev p")
        case True
        have "show_limit_loop so pe es limit dft kw (p_start p - limit) (p_end p - limit) w1
              = show_limit_loop so2 pe2 es limit dft kw (p_start p - limit) (p_end p - limit) w1"
          using "1.IH"(2) [OF p_def sm [symmetric] Inr notnext True] "1.prems" by simp
        then show ?thesis
          using same sm Inr True notnext by (simp add: unf1 unf2 p_def [symmetric])
      next
        case False
        then show ?thesis
          using same sm Inr notnext by (simp add: unf1 unf2 p_def [symmetric])
      qed
    qed
  qed
qed

lemma show_limit_order:
  assumes "admissible so"
  shows "show_limit so pe es kw w = show_limit remdups no_funs es kw w"
  using show_limit_loop_order [OF assms refl refl, of pe es]
  by (simp add: show_limit_def Let_def show_menu_nolimit_order [OF assms])

lemma ask_literals:
  assumes "admissible so"
    and "sanitize (case fmt of Some f \<Rightarrow> f | None \<Rightarrow> Some) l = Inr vs"
    and "list_all is_int vs \<or> list_all is_str vs"
  shows "ask so pe msg fmt PNone (Some l) False hlp w
         = ask remdups no_funs msg fmt PNone (Some l) False hlp w"
proof -
  have "list_all (\<lambda>x. \<not> is_float x) vs"
    using assms(3) by (auto simp: list_all_iff is_str_def is_int_def is_float_def split: pyobj.splits)
  then have so: "set (so vs) = set vs" "distinct (so vs)"
    using assms(1) unfolding admissible_def by blast+
  have same: "(case py_sorted (so vs) of Some s \<Rightarrow> s | None \<Rightarrow> so vs)
              = (case py_sorted (remdups vs) of Some s \<Rightarrow> s | None \<Rightarrow> remdups vs)"
    using so assms(3) by (intro py_sorted_order) (auto simp: list_all_iff)
  have prep: "ask_setup so msg fmt PNone (Some l) False hlp
              = ask_setup remdups msg fmt PNone (Some l) False hlp"
    using same assms(2) by (simp add: ask_setup_def Let_def)
  have sub: "set (a_vld a) \<subseteq> set vs"
    if "snd (ask_setup remdups msg fmt PNone (Some l) False hlp) = Inr a" for a
    using that assms(2)
    by (auto simp: ask_setup_def Let_def split: if_splits option.splits dest: set_py_sorted)
  have nofun: "\<forall>f. PFun f \<notin> set (a_vld a)"
    if "snd (ask_setup remdups msg fmt PNone (Some l) False hlp) = Inr a" for a
    using sub [OF that] assms(3) by (fastforce simp: list_all_iff is_str_def is_int_def)
  obtain c r where su: "ask_setup remdups msg fmt PNone (Some l) False hlp = (c, r)"
    by (cases "ask_setup remdups msg fmt PNone (Some l) False hlp")
  show ?thesis
  proof (cases r)
    case (Inl e)
    then show ?thesis by (simp add: ask_def prep su)
  next
    case (Inr a)
    then have "ask_loop pe a ls ou = ask_loop no_funs a ls ou" for ls ou
      using nofun [of a] su by (intro ask_loop_no_funs) simp
    then show ?thesis using Inr by (simp add: ask_def prep su)
  qed
qed

section \<open>The claims\<close>

text \<open>
  Claim C1, amended. \<open>ask("Pick one")\<close> with the rules \<open>[1, 2, 3]\<close> given as integers, no
  formatter and no default, reading the lines \<open>5\<close> and \<open>2\<close>: both lines are rejected,
  because a typed line is a string and no string equals an integer; both lines are
  consumed and the next read raises \<open>EOFError\<close>. With the formatter of \<open>ask_int\<close>, which
  casts the line to an integer, the line \<open>5\<close> is rejected and the call returns the
  integer 2 after consuming the second line. This holds whatever the order of
  \<open>list(set(...))\<close> and whatever functions exist.
\<close>

theorem C1_pick_one:
  assumes "admissible so"
  shows
  "fst (fst (ask so pe ''Pick one'' None PNone (Some [PInt 1, PInt 2, PInt 3]) False None
               (scripted [''5'', ''2'']))) = Inl EOFError
   \<and> streams (snd (ask so pe ''Pick one'' None PNone (Some [PInt 1, PInt 2, PInt 3]) False None
               (scripted [''5'', ''2'']))) 0 = []
   \<and> fst (fst (ask so pe ''Pick one'' (Some cast_int) PNone (Some [PInt 1, PInt 2, PInt 3])
               False None (scripted [''5'']))) = Inl EOFError
   \<and> fst (fst (ask so pe ''Pick one'' (Some cast_int) PNone (Some [PInt 1, PInt 2, PInt 3])
               False None (scripted [''5'', ''2'']))) = Inr (PInt 2)
   \<and> streams (snd (ask so pe ''Pick one'' (Some cast_int) PNone (Some [PInt 1, PInt 2, PInt 3])
               False None (scripted [''5'', ''2'']))) 0 = []"
proof -
  have ints: "list_all is_int [PInt 1, PInt 2, PInt 3] \<or> list_all is_str [PInt 1, PInt 2, PInt 3]"
    by (simp add: is_int_def)
  have s1: "sanitize (case None of Some f \<Rightarrow> f | None \<Rightarrow> Some) [PInt 1, PInt 2, PInt 3]
            = Inr [PInt 1, PInt 2, PInt 3]"
    by (simp add: sanitize_identity)
  have s2: "sanitize (case Some cast_int of Some f \<Rightarrow> f | None \<Rightarrow> Some) [PInt 1, PInt 2, PInt 3]
            = Inr [PInt 1, PInt 2, PInt 3]"
    by (simp add: cast_int_def cast_int_int truthy_def)
  note e1 = ask_literals [OF assms s1 ints, of pe "''Pick one''" None]
  note e2 = ask_literals [OF assms s2 ints, of pe "''Pick one''" None]
  have "fst (fst (ask remdups no_funs ''Pick one'' None PNone (Some [PInt 1, PInt 2, PInt 3]) False None
               (scripted [''5'', ''2'']))) = Inl EOFError
   \<and> streams (snd (ask remdups no_funs ''Pick one'' None PNone (Some [PInt 1, PInt 2, PInt 3]) False None
               (scripted [''5'', ''2'']))) 0 = []
   \<and> fst (fst (ask remdups no_funs ''Pick one'' (Some cast_int) PNone (Some [PInt 1, PInt 2, PInt 3])
               False None (scripted [''5'']))) = Inl EOFError
   \<and> fst (fst (ask remdups no_funs ''Pick one'' (Some cast_int) PNone (Some [PInt 1, PInt 2, PInt 3])
               False None (scripted [''5'', ''2'']))) = Inr (PInt 2)
   \<and> streams (snd (ask remdups no_funs ''Pick one'' (Some cast_int) PNone (Some [PInt 1, PInt 2, PInt 3])
               False None (scripted [''5'', ''2'']))) 0 = []"
    by code_simp
  then show ?thesis
    by (simp only: e1 e2)
qed

text \<open>The theorem at the order of first occurrence and without functions.\<close>

theorem C1_pick_one_witness:
  "admissible remdups
   \<and> fst (fst (ask remdups no_funs ''Pick one'' None PNone (Some [PInt 1, PInt 2, PInt 3]) False None
               (scripted [''5'', ''2'']))) = Inl EOFError
   \<and> fst (fst (ask remdups no_funs ''Pick one'' (Some cast_int) PNone (Some [PInt 1, PInt 2, PInt 3])
               False None (scripted [''5'', ''2'']))) = Inr (PInt 2)"
  using C1_pick_one [OF admissible_remdups, of no_funs] admissible_remdups by simp

text \<open>Claim C1 as stated fails: the call does not return the integer 2.\<close>

theorem C1_counterexample:
  "fst (fst (ask remdups no_funs ''Pick one'' None PNone (Some [PInt 1, PInt 2, PInt 3]) False None
               (scripted [''5'', ''2'']))) \<noteq> Inr (PInt 2)"
  by code_simp

text \<open>
  Claim C2, amended. For every entry list, every limit above 0 and every input fed to
  \<open>show_limit\<close>, each window shown satisfies \<open>0 \<le> istart \<le> iend\<close>,
  \<open>iend - istart = limit\<close> and \<open>iend \<le> max(limit, len(entries))\<close>, and shows at most \<open>limit\<close>
  entries of the list; so \<open>iend \<le> len(entries)\<close> holds whenever the list has at least
  \<open>limit\<close> entries.
\<close>

theorem C2_window_bounds:
  assumes "0 < limit" and "limit = (case kw_limit kw of Some l \<Rightarrow> l | None \<Rightarrow> 5)"
  shows "\<forall>it \<in> set (snd (snd (show_limit so pe es kw w))).
           0 \<le> it_start it \<and> it_start it \<le> it_end it \<and> it_end it - it_start it = limit
           \<and> it_end it \<le> max limit (int (length es)) \<and> length (it_names it) \<le> nat limit"
proof -
  have "list_all (window_ok limit (length es)) (snd (snd (show_limit so pe es kw w)))"
    using assms loop_windows [of limit limit 0 es so pe _ _ w]
    by (simp add: show_limit_def Let_def)
  then show ?thesis
    by (simp add: list_all_iff window_ok_def)
qed


text \<open>The theorem at the seven entries with the limit 3, going forward twice and back
  twice: five windows are shown.\<close>

theorem C2_window_bounds_witness:
  "(0::int) < 3
   \<and> map (\<lambda>i. (it_start i, it_end i))
        (snd (snd (show_limit remdups no_funs seven (no_kwargs\<lparr>kw_limit := Some 3\<rparr>)
                     (scripted [''n'', ''n'', ''p'', ''p'']))))
       = [(0, 3), (3, 6), (4, 7), (1, 4), (0, 3)]
   \<and> list_all (\<lambda>it. 0 \<le> it_start it \<and> it_start it \<le> it_end it \<and> it_end it - it_start it = 3
                  \<and> it_end it \<le> max 3 (int (length seven)) \<and> length (it_names it) \<le> nat 3)
        (snd (snd (show_limit remdups no_funs seven (no_kwargs\<lparr>kw_limit := Some 3\<rparr>)
                     (scripted [''n'', ''n'', ''p'', ''p'']))))"
proof -
  have h: "(0::int) < 3" by simp
  have k: "(3::int) = (case kw_limit (no_kwargs\<lparr>kw_limit := Some 3\<rparr>) of Some l \<Rightarrow> l | None \<Rightarrow> 5)"
    by simp
  have t: "map (\<lambda>i. (it_start i, it_end i))
        (snd (snd (show_limit remdups no_funs seven (no_kwargs\<lparr>kw_limit := Some 3\<rparr>)
                     (scripted [''n'', ''n'', ''p'', ''p'']))))
       = [(0, 3), (3, 6), (4, 7), (1, 4), (0, 3)]"
    by code_simp
  show ?thesis
    using h t C2_window_bounds [OF h k, of remdups no_funs seven "scripted [''n'', ''n'', ''p'', ''p'']"]
    by (simp add: list_all_iff)
qed

text \<open>Claim C2 as stated fails: with two entries and the limit 3 the window shown is
  \<open>(0, 3)\<close>, whose end lies beyond the list.\<close>

theorem C2_counterexample:
  "map (\<lambda>i. (it_start i, it_end i))
       (snd (snd (show_limit remdups no_funs [plain_entry ''x'' ''X'', plain_entry ''y'' ''Y'']
                    (no_kwargs\<lparr>kw_limit := Some 3\<rparr>) (scripted [''x'']))))
     = [(0, 3)]
   \<and> \<not> (3 \<le> int (length [plain_entry ''x'' ''X'', plain_entry ''y'' ''Y'']))"
  by code_simp

text \<open>
  Claim C3, at the failing input: \<open>ask\<close> with \<open>blk\<close> true, no rules and no default,
  reading an empty line and then the line \<open>a\<close>. The list of rules is empty, so the block
  under \<open>if vld:\<close> that adds the empty string is skipped: the rule set after the preamble
  is empty although \<open>blk\<close> is still true, the empty line is rejected, and the call returns
  \<open>a\<close>, having read both lines. With the empty line alone the call ends with
  \<open>EOFError\<close> instead of returning the empty string. An empty list passed as the rules
  gives the same.
\<close>

theorem C3_blank_rejected:
  "(case snd (ask_setup remdups ''Enter input'' None PNone None True None) of
      Inl e \<Rightarrow> False
    | Inr a \<Rightarrow> a_vld a = [] \<and> a_blk a)
   \<and> fst (ask remdups no_funs ''Enter input'' None PNone None True None (scripted ['''', ''a'']))
       = (Inr (PStr ''a''), None)
   \<and> streams (snd (ask remdups no_funs ''Enter input'' None PNone None True None
                     (scripted ['''', ''a'']))) 0 = []
   \<and> fst (fst (ask remdups no_funs ''Enter input'' None PNone None True None (scripted [''''])))
       = Inl EOFError
   \<and> fst (fst (ask remdups no_funs ''Enter input'' None PNone (Some []) True None
                  (scripted ['''', ''a''])))
       = Inr (PStr ''a'')"
  by code_simp

text \<open>
  Claim C4, at the failing input: the entries \<open>n\<close>, \<open>a\<close>, \<open>b\<close> with the limit 2 and the
  default \<open>b\<close>. The default is not in the first window, the synthetic next entry is
  named \<open>N\<close>, and the default handed to \<open>show_menu\<close> is \<open>n\<close>, the name of a real
  entry: an empty line selects that entry and \<open>show_limit\<close> returns \<open>n\<close>.
\<close>

theorem C4_default_not_next:
  "it_nnext (hd (snd (snd (show_limit remdups no_funs
        [plain_entry ''n'' ''x'', plain_entry ''a'' ''y'', plain_entry ''b'' ''z'']
        (no_kwargs\<lparr>kw_limit := Some 2, kw_dft := Some (PStr ''b'')\<rparr>) (scripted ['''']))))) = ''N''
   \<and> it_tmpdft (hd (snd (snd (show_limit remdups no_funs
        [plain_entry ''n'' ''x'', plain_entry ''a'' ''y'', plain_entry ''b'' ''z'']
        (no_kwargs\<lparr>kw_limit := Some 2, kw_dft := Some (PStr ''b'')\<rparr>) (scripted ['''']))))) = PStr ''n''
   \<and> fst (show_limit remdups no_funs
        [plain_entry ''n'' ''x'', plain_entry ''a'' ''y'', plain_entry ''b'' ''z'']
        (no_kwargs\<lparr>kw_limit := Some 2, kw_dft := Some (PStr ''b'')\<rparr>) (scripted [''''])) = Inr ''n''"
  by code_simp

text \<open>
  Claim C5, amended. For the seven entries named \<open>1\<close> to \<open>7\<close>, the limit 3 and the lines
  \<open>n\<close>, \<open>n\<close>, \<open>3\<close>: the windows shown are \<open>(0, 3)\<close>, \<open>(3, 6)\<close> and \<open>(4, 7)\<close>; the last one
  shows the entries \<open>5\<close>, \<open>6\<close>, \<open>7\<close>, so the line \<open>3\<close> names no visible entry, is rejected,
  and the next read raises \<open>EOFError\<close>. With the lines \<open>n\<close>, \<open>n\<close>, \<open>7\<close> the call returns
  \<open>7\<close>, the name of the third visible entry, having consumed all three lines. This
  holds whatever the order of \<open>list(set(...))\<close> and whatever functions exist.
\<close>

theorem C5_paging:
  assumes "admissible so"
  shows
  "map (\<lambda>i. (it_start i, it_end i, it_names i))
       (snd (snd (show_limit so pe seven (no_kwargs\<lparr>kw_limit := Some 3\<rparr>)
                    (scripted [''n'', ''n'', ''3'']))))
     = [(0, 3, [''1'', ''2'', ''3'']), (3, 6, [''4'', ''5'', ''6'']), (4, 7, [''5'', ''6'', ''7''])]
   \<and> fst (show_limit so pe seven (no_kwargs\<lparr>kw_limit := Some 3\<rparr>)
            (scripted [''n'', ''n'', ''3''])) = Inl EOFError
   \<and> fst (show_limit so pe seven (no_kwargs\<lparr>kw_limit := Some 3\<rparr>)
            (scripted [''n'', ''n'', ''7''])) = Inr ''7''
   \<and> streams (fst (snd (show_limit so pe seven (no_kwargs\<lparr>kw_limit := Some 3\<rparr>)
            (scripted [''n'', ''n'', ''7''])))) 0 = []"
proof -
  have "map (\<lambda>i. (it_start i, it_end i, it_names i))
       (snd (snd (show_limit remdups no_funs seven (no_kwargs\<lparr>kw_limit := Some 3\<rparr>)
                    (scripted [''n'', ''n'', ''3'']))))
     = [(0, 3, [''1'', ''2'', ''3'']), (3, 6, [''4'', ''5'', ''6'']), (4, 7, [''5'', ''6'', ''7''])]
   \<and> fst (show_limit remdups no_funs seven (no_kwargs\<lparr>kw_limit := Some 3\<rparr>)
            (scripted [''n'', ''n'', ''3''])) = Inl EOFError
   \<and> fst (show_limit remdups no_funs seven (no_kwargs\<lparr>kw_limit := Some 3\<rparr>)
            (scripted [''n'', ''n'', ''7''])) = Inr ''7''
   \<and> streams (fst (snd (show_limit remdups no_funs seven (no_kwargs\<lparr>kw_limit := Some 3\<rparr>)
            (scripted [''n'', ''n'', ''7''])))) 0 = []"
    by code_simp
  then show ?thesis
    by (simp only: show_limit_order [OF assms, of pe])
qed

text \<open>The theorem at the order of first occurrence and without functions.\<close>

theorem C5_paging_witness:
  "admissible remdups
   \<and> fst (show_limit remdups no_funs seven (no_kwargs\<lparr>kw_limit := Some 3\<rparr>)
            (scripted [''n'', ''n'', ''3''])) = Inl EOFError
   \<and> fst (show_limit remdups no_funs seven (no_kwargs\<lparr>kw_limit := Some 3\<rparr>)
            (scripted [''n'', ''n'', ''7''])) = Inr ''7''"
  using C5_paging [OF admissible_remdups, of no_funs] admissible_remdups by simp

text \<open>Claim C5 as stated fails: nothing is returned for the line \<open>3\<close>, and the last
  window starts at 4.\<close>

theorem C5_counterexample:
  "fst (show_limit remdups no_funs seven (no_kwargs\<lparr>kw_limit := Some 3\<rparr>)
          (scripted [''n'', ''n'', ''3''])) = Inl EOFError
   \<and> it_start (last (snd (snd (show_limit remdups no_funs seven (no_kwargs\<lparr>kw_limit := Some 3\<rparr>)
          (scripted [''n'', ''n'', ''3'']))))) \<noteq> 6"
  by code_simp




text \<open>
  Claim C7, at the failing input: \<open>ask\<close> with \<open>blk\<close> true, no rules and no default, reading
  the line \<open>?\<close>. \<open>print_help\<close> removes the empty string from a list that does not hold
  it, and \<open>ask\<close> ends with \<open>ValueError\<close> although a valid line follows.
\<close>

theorem C7_help_raises:
  "fst (fst (ask remdups no_funs ''Enter input'' None PNone None True None (scripted [''?'', ''a''])))
     = Inl ValueError"
  by code_simp

text \<open>
  Claim C8. After every call of \<open>Menu.main\<close>, with a scripted input list or without,
  \<open>sys.stdin\<close> is the original input source again, the one kept in
  \<open>stdin_setup.original\<close>, whether the call returns or an exception leaves it: every way
  out of the \<open>with\<close> block sets \<open>sys.stdin\<close> to that source, and the one exception
  raised before the block leaves the state untouched. So if \<open>sys.stdin\<close> is the
  original source when \<open>main\<close> is called, it is the same source afterwards.
\<close>

theorem C8_stdin_restored:
  "(sys_stdin w = setup_original w \<longrightarrow>
      sys_stdin (snd (snd (Menu_main so pe m auto loop quit kw w))) = sys_stdin w)
   \<and> setup_original (snd (snd (Menu_main so pe m auto loop quit kw w))) = setup_original w
   \<and> (sys_stdin (snd (snd (Menu_main so pe m auto loop quit kw w))) = setup_original w
        \<or> Menu_main so pe m auto loop quit kw w = (Inl IndexError, m, w))"
proof -
  define a where "a = StdinAuto_init auto w"
  define w1 where "w1 = StdinAuto_enter a w"
  have enter: "setup_original w1 = setup_original w"
    by (simp add: w1_def StdinAuto_enter_def setinput_def StdinSetup_setup_def)
  have body: "setup_original (snd (main_loop so pe m1 quit k w1)) = setup_original w1"
    "setup_original (snd (Menu_show so pe m1 k w1)) = setup_original w1" for m1 k
    using main_loop_sources [of w1 so pe m1 quit k]
      show_menu_sources [of w1 so pe "entries m1" "kw_update (show_kwargs m1) k"]
    by (simp_all add: same_sources_def Menu_show_def)
  have after: "sys_stdin (StdinAuto_exit w2) = setup_original w2"
    "setup_original (StdinAuto_exit w2) = setup_original w2" for w2 :: "'a world"
    by (simp_all add: StdinAuto_exit_def StdinSetup_teardown_def)
  have main: "setup_original (snd (snd (Menu_main so pe m auto loop quit kw w))) = setup_original w
    \<and> (sys_stdin (snd (snd (Menu_main so pe m auto loop quit kw w))) = setup_original w
        \<or> Menu_main so pe m auto loop quit kw w = (Inl IndexError, m, w))"
    using enter body after
    by (auto simp: Menu_main_def Let_def a_def [symmetric] w1_def [symmetric] case_prod_beta
             split: option.splits sum.splits prod.splits)
  then show ?thesis by auto
qed

text \<open>The theorem at a menu whose first action raises, run in loop mode from the
  original source with one scripted line: the line \<open>g\<close> ends the call with the
  action's exception, the line \<open>q\<close> with a normal return, and \<open>sys.stdin\<close> is the
  original source after both.\<close>

theorem C8_stdin_restored_witness:
  "sys_stdin (scripted [''zz'']) = setup_original (scripted [''zz''])
   \<and> fst (Menu_main remdups no_funs g_menu (Some [''g'']) True (Some (''q'', ''Quit'')) no_kwargs
            (scripted [''zz''])) = Inl ActionRaised
   \<and> fst (Menu_main remdups no_funs g_menu (Some [''q'']) True (Some (''q'', ''Quit'')) no_kwargs
            (scripted [''zz''])) = Inr None
   \<and> sys_stdin (snd (snd (Menu_main remdups no_funs g_menu (Some [''g'']) True
            (Some (''q'', ''Quit'')) no_kwargs (scripted [''zz''])))) = 0
   \<and> sys_stdin (snd (snd (Menu_main remdups no_funs g_menu (Some [''q'']) True
            (Some (''q'', ''Quit'')) no_kwargs (scripted [''zz''])))) = 0"
proof -
  have h: "sys_stdin (scripted [''zz'']) = setup_original (scripted [''zz''])"
    by (simp add: scripted_def)
  have r1: "fst (Menu_main remdups no_funs g_menu (Some [''g'']) True (Some (''q'', ''Quit''))
              no_kwargs (scripted [''zz''])) = Inl ActionRaised"
    by code_simp
  have r2: "fst (Menu_main remdups no_funs g_menu (Some [''q'']) True (Some (''q'', ''Quit''))
              no_kwargs (scripted [''zz''])) = Inr None"
    by code_simp
  have z: "sys_stdin (scripted [''zz'']) = 0"
    by (simp add: scripted_def)
  show ?thesis
    using h r1 r2 z
      C8_stdin_restored [of "scripted [''zz'']" remdups no_funs g_menu "Some [''g'']" True
        "Some (''q'', ''Quit'')" no_kwargs]
      C8_stdin_restored [of "scripted [''zz'']" remdups no_funs g_menu "Some [''q'']" True
        "Some (''q'', ''Quit'')" no_kwargs]
    by simp
qed

text \<open>
  Claim C9. \<open>Menu.main\<close> with a quit entry, on a menu without entries, raises
  \<open>IndexError\<close>; the menu and the state stay as they were.
\<close>

theorem C9_empty_menu:
  "Menu_main so pe (m\<lparr>entries := []\<rparr>) auto loop (Some q) kw w
     = (Inl IndexError, m\<lparr>entries := []\<rparr>, w)"
  by (simp add: Menu_main_def)
text \<open>The theorem at the empty menu with the default quit entry.\<close>

theorem C9_empty_menu_witness:
  "Menu_main remdups no_funs (empty_menu\<lparr>entries := []\<rparr>) (Some [''q'']) False
      (Some (''q'', ''Quit'')) no_kwargs (scripted [])
     = (Inl IndexError, empty_menu\<lparr>entries := []\<rparr>, scripted [])"
  by (rule C9_empty_menu)

text \<open>
  Claim C10, amended. For every call of \<open>ask\<close> with a default whose formatted value is
  not \<open>None\<close> and with a non-empty list of the caller as rule set, the caller's list has
  the formatted default appended after the call, whether \<open>ask\<close> returns or raises; an
  empty list of the caller stays empty.
\<close>

theorem C10_appends_default:
  assumes "dft \<noteq> PNone"
    and "(case fmt of Some f \<Rightarrow> f | None \<Rightarrow> Some) dft = Some d"
    and "d \<noteq> PNone"
    and "l \<noteq> []"
  shows "snd (fst (ask so pe msg fmt dft (Some l) blk hlp w)) = Some (l @ [d])
         \<and> snd (fst (ask so pe msg fmt dft (Some []) blk hlp w)) = Some []"
  using assms
  by (auto simp: ask_def ask_setup_def Let_def split: prod.splits sum.splits option.splits)

text \<open>The theorem at the integer formatter, the default \<open>"7"\<close> and the caller's list
  \<open>[1, 2]\<close>, which becomes \<open>[1, 2, 7]\<close>.\<close>

theorem C10_appends_default_witness:
  "snd (fst (ask remdups no_funs ''Enter an integer'' (Some cast_int) (PStr ''7'') (Some [PInt 1, PInt 2])
               False None (scripted [''x'']))) = Some [PInt 1, PInt 2, PInt 7]
   \<and> snd (fst (ask remdups no_funs ''Enter an integer'' (Some cast_int) (PStr ''7'') (Some [])
               False None (scripted [''x'']))) = Some []"
proof -
  have "cast_int (PStr ''7'') = Some (PInt 7)" by code_simp
  then show ?thesis
    using C10_appends_default [of "PStr ''7''" "Some cast_int" "PInt 7" "[PInt 1, PInt 2]"
        remdups no_funs "''Enter an integer''" False None "scripted [''x'']"]
    by simp
qed


text \<open>Claim C10 as stated fails: an empty list of the caller is not changed.\<close>

theorem C10_counterexample:
  "snd (fst (ask remdups no_funs ''Enter input'' None (PStr ''x'') (Some []) False None (scripted [''x''])))
     \<noteq> Some [PStr ''x'']"
  by code_simp

end
